theory Spec2Isabelle
  imports Complex_Main "HOL-Library.Sublist" "HOL-Library.Char_ord" "HOL-Library.List_Lexorder"
begin

section \<open>Strings\<close>

text \<open>
  Python strings are modelled as \<open>string\<close>, the list of the bytes of their UTF-8 encoding.
  The order on strings is the lexicographic order on character codes (\<open>Char_ord\<close>,
  \<open>List_Lexorder\<close>), which is the order Python's \<open>sorted\<close> uses.

  \<open>str.lower\<close> maps the ASCII capitals to their small letters. Two characters outside
  ASCII have a lower-case form with an ASCII letter in it, and the model maps them as
  Python does: U+212A KELVIN SIGN (bytes E2 84 AA) becomes \<open>k\<close>, and U+0130 (bytes C4 B0)
  becomes \<open>i\<close> followed by U+0307 (bytes CC 87). Every other character outside ASCII has a
  lower-case form outside ASCII and is left as it is, so that the model's result has an
  ASCII word at a place exactly when Python's has.
\<close>

definition char_lower :: "char \<Rightarrow> char" where
  "char_lower c =
     (let n = (of_char c :: nat) in if 65 \<le> n \<and> n \<le> 90 then char_of (n + 32) else c)"

fun lower :: "string \<Rightarrow> string" where
  "lower (a # b # c # cs) =
     (if a = CHR 0xE2 \<and> b = CHR 0x84 \<and> c = CHR 0xAA then CHR ''k'' # lower cs
      else if a = CHR 0xC4 \<and> b = CHR 0xB0 then CHR ''i'' # CHR 0xCC # CHR 0x87 # lower (c # cs)
      else char_lower a # lower (b # c # cs))"
| "lower [a, b] =
     (if a = CHR 0xC4 \<and> b = CHR 0xB0 then [CHR ''i'', CHR 0xCC, CHR 0x87]
      else [char_lower a, char_lower b])"
| "lower [a] = [char_lower a]"
| "lower [] = []"

definition endswith :: "string \<Rightarrow> string \<Rightarrow> bool" where
  "endswith s suf \<longleftrightarrow> length suf \<le> length s \<and> drop (length s - length suf) s = suf"

definition startswith :: "string \<Rightarrow> string \<Rightarrow> bool" where
  "startswith s pre \<longleftrightarrow> take (length pre) s = pre"

text \<open>\<open>sub in s\<close> on strings: \<open>sub\<close> occurs in \<open>s\<close> as a contiguous run.\<close>

fun str_contains :: "string \<Rightarrow> string \<Rightarrow> bool" where
  "str_contains sub [] = (sub = [])"
| "str_contains sub (c # cs) = (startswith (c # cs) sub \<or> str_contains sub cs)"

text \<open>\<open>s.split('/')\<close>\<close>

fun split_sep :: "string \<Rightarrow> string list" where
  "split_sep [] = [[]]"
| "split_sep (c # cs) =
     (if c = CHR ''/'' then [] # split_sep cs
      else (case split_sep cs of [] \<Rightarrow> [[c]] | w # ws \<Rightarrow> (c # w) # ws))"

text \<open>\<open>'/'.join(xs)\<close>\<close>

fun join_sep :: "string list \<Rightarrow> string" where
  "join_sep [] = []"
| "join_sep [x] = x"
| "join_sep (x # y # ys) = x @ ''/'' @ join_sep (y # ys)"

section \<open>Paths\<close>

text \<open>
  \<open>pathlib.Path\<close> on a POSIX system: a path is its root (\<open>''''\<close>, \<open>''/''\<close> or \<open>''//''\<close>)
  and the list of its components. Parsing drops empty components and \<open>''.''\<close>; a path that
  starts with exactly two slashes keeps the root \<open>''//''\<close>. Drive letters and the
  case-insensitive comparison of Windows paths are not modelled.
\<close>

record path =
  path_root :: string
  path_parts :: "string list"

definition splitroot :: "string \<Rightarrow> string \<times> string" where
  "splitroot part =
     (if part \<noteq> [] \<and> hd part = CHR ''/'' then
        (let stripped = dropWhile (\<lambda>c. c = CHR ''/'') part in
         if length part - length stripped = 2 then (''//'', stripped) else (''/'', stripped))
      else ([], part))"

definition Path :: "string \<Rightarrow> path" where
  "Path s =
     (let (r, rel) = splitroot s in
      \<lparr>path_root = r, path_parts = filter (\<lambda>x. x \<noteq> [] \<and> x \<noteq> ''.'') (split_sep rel)\<rparr>)"

text \<open>\<open>str(p)\<close>\<close>

definition path_str :: "path \<Rightarrow> string" where
  "path_str p =
     (if path_root p = [] \<and> path_parts p = [] then ''.''
      else path_root p @ join_sep (path_parts p))"

text \<open>\<open>p.name\<close>: the final component, the empty string when there is none.\<close>

definition path_name :: "path \<Rightarrow> string" where
  "path_name p = (if path_parts p = [] then [] else last (path_parts p))"

text \<open>\<open>p.parent\<close>\<close>

definition path_parent :: "path \<Rightarrow> path" where
  "path_parent p = p\<lparr>path_parts := butlast (path_parts p)\<rparr>"

text \<open>\<open>p / s\<close> for a string \<open>s\<close>: an absolute \<open>s\<close> replaces \<open>p\<close>.\<close>

definition path_join :: "path \<Rightarrow> string \<Rightarrow> path" where
  "path_join p s =
     (let q = Path s in
      if path_root q \<noteq> [] then q
      else \<lparr>path_root = path_root p, path_parts = path_parts p @ path_parts q\<rparr>)"

datatype py_error = ValueError | OSError string

text \<open>
  \<open>p.relative_to(other)\<close>: raises \<open>ValueError\<close> unless \<open>other\<close> has the root of \<open>p\<close>
  and its components are the first components of \<open>p\<close>; the result has no root.
\<close>

definition relative_to :: "path \<Rightarrow> path \<Rightarrow> py_error + path" where
  "relative_to p other =
     (let n = length (path_parts other) in
      if path_root p = path_root other \<and> take n (path_parts p) = path_parts other
      then Inr \<lparr>path_root = [], path_parts = drop n (path_parts p)\<rparr>
      else Inl ValueError)"

text \<open>\<open>os.path.join(a, b)\<close>\<close>

definition os_path_join :: "string \<Rightarrow> string \<Rightarrow> string" where
  "os_path_join a b =
     (if startswith b ''/'' then b
      else if a = [] \<or> endswith a ''/'' then a @ b
      else a @ ''/'' @ b)"

section \<open>Directory trees and \<open>os.walk\<close>\<close>

text \<open>
  A directory is the names of the files it holds directly and its subdirectories by name.
  \<open>os.walk(top)\<close> yields, top down, one triple \<open>(root, dirs, files)\<close> for every directory
  of the tree; the path of a subdirectory is \<open>os.path.join\<close> of its parent's with its name.
\<close>

datatype dir_tree = Dir (dir_files: "string list") (dir_subdirs: "(string \<times> dir_tree) list")

fun os_walk :: "string \<Rightarrow> dir_tree \<Rightarrow> (string \<times> string list \<times> string list) list" where
  "os_walk tp (Dir files subs) =
     (tp, map fst subs, files) #
     concat (map (\<lambda>e. os_walk (os_path_join tp (fst e)) (snd e)) subs)"

section \<open>The orchestrator's environment\<close>

text \<open>
  The verdict of \<open>check_calibration_status\<close> for one directory, a dictionary with these
  eight keys, and the counters that \<open>process_light_directories\<close> returns, a dictionary
  with these six keys. Both are only read and written at literal keys, so each is a record.
\<close>

record calibration_status =
  has_lights :: bool
  light_count :: nat
  dark_count :: nat
  flat_count :: nat
  bias_count :: nat
  needs_bias :: bool
  is_complete :: bool
  reason :: string

record results =
  moved :: nat
  skipped_no_lights :: nat
  skipped_no_darks :: nat
  skipped_no_flats :: nat
  skipped_no_bias :: nat
  errors :: nat

text \<open>
  What the orchestrator calls outside its own file, over an abstract file-system state
  \<open>'fs\<close>. Reading is a function of the state; an operation that writes returns the new
  state and the exception it raised, if any (a failed operation may have changed the
  state). All exceptions of these operations derive from \<open>Exception\<close>.
  \<^item> \<open>replace_env_vars\<close>: \<open>ap_common.replace_env_vars\<close>;
  \<^item> \<open>tree_at\<close>: the directory tree that \<open>os.walk\<close> finds at a path, \<open>None\<close> when the
    path is not a readable directory (\<open>os.walk\<close> then yields nothing);
  \<^item> \<open>status_of\<close>: the call \<open>check_calibration_status(image_dir, debug)\<close>, which reads the
    frames of the directory; its module \<open>matching\<close> is not among the source files, and the
    call is taken to return a verdict;
  \<^item> \<open>mkdir_parents\<close>: \<open>p.mkdir(parents=True, exist_ok=True)\<close>;
  \<^item> \<open>shutil_move\<close>: \<open>shutil.move(src, dst)\<close>;
  \<^item> \<open>delete_empty_directories\<close>: \<open>ap_common.delete_empty_directories(path, debug)\<close>.
  What \<open>shutil.move\<close> does with the two paths it is given (it moves the source into the
  destination when that is an existing directory) is part of \<open>shutil_move\<close>. Console
  output is not modelled, and neither is a source path on which \<open>os.walk\<close> itself raises,
  as it does on a path with a NUL character.
\<close>

record 'fs env =
  replace_env_vars :: "string \<Rightarrow> string"
  tree_at :: "'fs \<Rightarrow> string \<Rightarrow> dir_tree option"
  status_of :: "'fs \<Rightarrow> string \<Rightarrow> bool \<Rightarrow> calibration_status"
  mkdir_parents :: "path \<Rightarrow> 'fs \<Rightarrow> py_error option \<times> 'fs"
  shutil_move :: "string \<Rightarrow> string \<Rightarrow> 'fs \<Rightarrow> py_error option \<times> 'fs"
  delete_empty_directories :: "string \<Rightarrow> bool \<Rightarrow> 'fs \<Rightarrow> py_error option \<times> 'fs"

section \<open>\<open>find_light_directories\<close>\<close>

text \<open>
  The inner loop over the extensions with its \<open>break\<close>: some extension of the list is the
  lower-cased ending of some file name.
\<close>

definition has_images :: "string list \<Rightarrow> bool" where
  "has_images files =
     list_ex (\<lambda>ext. list_ex (\<lambda>f. endswith (lower f) (''.'' @ ext)) files)
       [''fits'', ''fit'', ''xisf'']"

definition find_light_directories :: "'fs env \<Rightarrow> string \<Rightarrow> bool \<Rightarrow> 'fs \<Rightarrow> string list" where
  "find_light_directories env source_dir debug fs =
     (let source_path = Path (replace_env_vars env source_dir);
          walked = (case tree_at env fs (path_str source_path) of
                      None \<Rightarrow> []
                    | Some t \<Rightarrow> os_walk (path_str source_path) t);
          light_dirs = set (map fst (filter (\<lambda>(root, dirs, files). has_images files) walked))
      in sorted_list_of_set light_dirs)"

section \<open>\<open>get_target_from_path\<close>\<close>

text \<open>
  The \<open>except ValueError\<close> clause catches that exception only; any other would leave the
  function.
\<close>

definition get_target_from_path :: "'fs env \<Rightarrow> string \<Rightarrow> string \<Rightarrow> py_error + string" where
  "get_target_from_path env light_dir source_dir =
     (let source_path = Path (replace_env_vars env source_dir);
          light_path = Path light_dir
      in case relative_to light_path source_path of
           Inr relative \<Rightarrow> Inr (path_str relative)
         | Inl ValueError \<Rightarrow> Inr (path_name light_path)
         | Inl e \<Rightarrow> Inl e)"

section \<open>\<open>move_directory\<close>\<close>

text \<open>
  The \<open>except Exception\<close> clause catches whatever \<open>mkdir\<close> or \<open>shutil.move\<close> raises, so the
  function returns a truth value and the state the operations left.
\<close>

definition move_directory ::
  "'fs env \<Rightarrow> string \<Rightarrow> string \<Rightarrow> bool \<Rightarrow> bool \<Rightarrow> 'fs \<Rightarrow> bool \<times> 'fs" where
  "move_directory env source dest debug dry_run fs =
     (let source_path = Path source;
          dest_path = Path dest
      in if dry_run then (True, fs)
         else (case mkdir_parents env (path_parent dest_path) fs of
                 (Some e, fs1) \<Rightarrow> (False, fs1)
               | (None, fs1) \<Rightarrow>
                   (case shutil_move env (path_str source_path) (path_str dest_path) fs1 of
                      (Some e, fs2) \<Rightarrow> (False, fs2)
                    | (None, fs2) \<Rightarrow> (True, fs2))))"

section \<open>\<open>process_light_directories\<close>\<close>

text \<open>
  The body of the loop over \<open>image_dirs\<close>, for one directory: it takes the counters and
  the state and returns them updated, or the exception that leaves the loop.
\<close>

definition process_image_dir ::
  "'fs env \<Rightarrow> string \<Rightarrow> path \<Rightarrow> bool \<Rightarrow> bool \<Rightarrow> string \<Rightarrow> results \<Rightarrow> 'fs
     \<Rightarrow> (py_error + results) \<times> 'fs" where
  "process_image_dir env source_dir dest_path debug dry_run image_dir res fs =
     (case get_target_from_path env image_dir source_dir of
        Inl e \<Rightarrow> (Inl e, fs)
      | Inr relative_path \<Rightarrow>
          (let status = status_of env fs image_dir debug in
           if \<not> has_lights status then
             (Inr (res\<lparr>skipped_no_lights := skipped_no_lights res + 1\<rparr>), fs)
           else if \<not> is_complete status then
             (let rsn = reason status in
              if str_contains ''dark'' (lower rsn) then
                (Inr (res\<lparr>skipped_no_darks := skipped_no_darks res + 1\<rparr>), fs)
              else if str_contains ''flat'' (lower rsn) then
                (Inr (res\<lparr>skipped_no_flats := skipped_no_flats res + 1\<rparr>), fs)
              else if str_contains ''bias'' (lower rsn) then
                (Inr (res\<lparr>skipped_no_bias := skipped_no_bias res + 1\<rparr>), fs)
              else (Inr res, fs))
           else
             (let dest_full = path_join dest_path relative_path;
                  (success, fs1) = move_directory env image_dir (path_str dest_full) debug dry_run fs
              in if success then (Inr (res\<lparr>moved := moved res + 1\<rparr>), fs1)
                 else (Inr (res\<lparr>errors := errors res + 1\<rparr>), fs1))))"

text \<open>The loop \<open>for image_dir in image_dirs\<close>.\<close>

fun process_dirs ::
  "'fs env \<Rightarrow> string \<Rightarrow> path \<Rightarrow> bool \<Rightarrow> bool \<Rightarrow> string list \<Rightarrow> results \<Rightarrow> 'fs
     \<Rightarrow> (py_error + results) \<times> 'fs" where
  "process_dirs env source_dir dest_path debug dry_run [] res fs = (Inr res, fs)"
| "process_dirs env source_dir dest_path debug dry_run (image_dir # image_dirs) res fs =
     (case process_image_dir env source_dir dest_path debug dry_run image_dir res fs of
        (Inl e, fs1) \<Rightarrow> (Inl e, fs1)
      | (Inr res1, fs1) \<Rightarrow> process_dirs env source_dir dest_path debug dry_run image_dirs res1 fs1)"

definition initial_results :: results where
  "initial_results =
     \<lparr>moved = 0, skipped_no_lights = 0, skipped_no_darks = 0, skipped_no_flats = 0,
      skipped_no_bias = 0, errors = 0\<rparr>"

definition process_light_directories ::
  "'fs env \<Rightarrow> string \<Rightarrow> string \<Rightarrow> bool \<Rightarrow> bool \<Rightarrow> 'fs \<Rightarrow> (py_error + results) \<times> 'fs" where
  "process_light_directories env source_dir dest_dir debug dry_run fs =
     (let res = initial_results;
          source_path = Path (replace_env_vars env source_dir);
          dest_path = Path (replace_env_vars env dest_dir);
          image_dirs = find_light_directories env source_dir debug fs
      in if image_dirs = [] then (Inr res, fs)
         else (case process_dirs env source_dir dest_path debug dry_run image_dirs res fs of
                 (Inl e, fs1) \<Rightarrow> (Inl e, fs1)
               | (Inr res1, fs1) \<Rightarrow>
                   if \<not> dry_run \<and> moved res1 > 0 then
                     (case delete_empty_directories env (path_str source_path) debug fs1 of
                        (Some e, fs2) \<Rightarrow> (Inl e, fs2)
                      | (None, fs2) \<Rightarrow> (Inr res1, fs2))
                   else (Inr res1, fs1)))"

section \<open>The completeness evaluator\<close>

text \<open>
  Modelled from the spec: the module \<open>matching\<close> (\<open>get_frames_by_type\<close>, the three matchers
  and \<open>check_calibration_status\<close>) and the constants of \<open>config\<close> are not among the source
  files. The definitions of this section follow sections 3 and 4 of the specification. A
  frame descriptor carries its type tag and the acquisition parameters; a keyword that the
  header lacks is \<open>None\<close>, and so is a type tag that is missing or not recognised.
\<close>

datatype frame_type = LIGHT | DARK | FLAT | BIAS

record frame =
  frame_file_path :: string
  frame_type :: "frame_type option"
  frame_camera :: "string option"
  frame_settemp :: "real option"
  frame_gain :: "int option"
  frame_offset :: "int option"
  frame_readoutmode :: "string option"
  frame_exposure_seconds :: "real option"
  frame_date :: "string option"
  frame_filter :: "string option"

text \<open>
  Modelled from the spec: the classifier (4.1). The frames of one type, in their order;
  frames without a recognised type belong to no group.
\<close>

definition get_frames_by_type :: "frame list \<Rightarrow> frame_type \<Rightarrow> frame list" where
  "get_frames_by_type frames ty = filter (\<lambda>f. frame_type f = Some ty) frames"

text \<open>
  Modelled from the spec: \<open>LIGHT_REQUIRED_KEYWORDS\<close> (3). A light frame that lacks one of
  them is malformed and left out of the light set.
\<close>

definition has_required_keywords :: "frame \<Rightarrow> bool" where
  "has_required_keywords f \<longleftrightarrow>
     frame_camera f \<noteq> None \<and> frame_settemp f \<noteq> None \<and> frame_gain f \<noteq> None \<and>
     frame_offset f \<noteq> None \<and> frame_readoutmode f \<noteq> None \<and>
     frame_exposure_seconds f \<noteq> None \<and> frame_filter f \<noteq> None \<and> frame_date f \<noteq> None"

definition light_frames :: "frame list \<Rightarrow> frame list" where
  "light_frames frames = filter has_required_keywords (get_frames_by_type frames LIGHT)"

text \<open>
  Modelled from the spec: the matchers (4.2). The tolerance on the sensor temperature is a
  fixed constant of the configuration, here the parameter \<open>tol\<close>.
\<close>

definition settemp_within :: "real \<Rightarrow> frame \<Rightarrow> frame \<Rightarrow> bool" where
  "settemp_within tol a b =
     (case (frame_settemp a, frame_settemp b) of
        (Some x, Some y) \<Rightarrow> \<bar>x - y\<bar> \<le> tol
      | _ \<Rightarrow> False)"

definition same_sensor_settings :: "frame \<Rightarrow> frame \<Rightarrow> bool" where
  "same_sensor_settings a b \<longleftrightarrow>
     frame_camera a = frame_camera b \<and> frame_gain a = frame_gain b \<and>
     frame_offset a = frame_offset b \<and> frame_readoutmode a = frame_readoutmode b"

text \<open>
  The darks that match with equal exposure; when there are none, the darks that match on
  every other key, flagged as bias-correctable.
\<close>

definition find_matching_darks :: "real \<Rightarrow> frame \<Rightarrow> frame list \<Rightarrow> frame list \<times> bool" where
  "find_matching_darks tol light darks =
     (let relaxed = filter (\<lambda>d. same_sensor_settings light d \<and> settemp_within tol light d) darks;
          exact = filter (\<lambda>d. frame_exposure_seconds d = frame_exposure_seconds light) relaxed
      in if exact \<noteq> [] then (exact, False) else (relaxed, relaxed \<noteq> []))"

definition find_matching_flats :: "frame \<Rightarrow> frame list \<Rightarrow> frame list" where
  "find_matching_flats light flats =
     filter (\<lambda>f. same_sensor_settings light f \<and> frame_filter f = frame_filter light) flats"

definition find_matching_bias :: "real \<Rightarrow> frame \<Rightarrow> frame list \<Rightarrow> frame list" where
  "find_matching_bias tol light bias_frames =
     filter (\<lambda>b. same_sensor_settings light b \<and> settemp_within tol light b) bias_frames"

text \<open>
  Modelled from the spec: the evaluator (4.3). Without light frames the verdict is the one
  of step 1. Otherwise the directory is complete when every light has a matching dark and
  a matching flat and, where its darks are only bias-correctable, a matching bias; the
  reason cites the first kind of frame that is missing. The specification fixes the text of
  the reason for step 1 only; for the other three it says which word the reason cites.
\<close>

definition check_calibration_status :: "real \<Rightarrow> frame list \<Rightarrow> calibration_status" where
  "check_calibration_status tol frames =
     (let lights = light_frames frames;
          darks = get_frames_by_type frames DARK;
          flats = get_frames_by_type frames FLAT;
          bias_frames = get_frames_by_type frames BIAS
      in if lights = [] then
           \<lparr>has_lights = False, light_count = 0, dark_count = length darks,
            flat_count = length flats, bias_count = length bias_frames,
            needs_bias = False, is_complete = False, reason = ''No light frames found''\<rparr>
         else
           (let darks_ok = list_all (\<lambda>l. fst (find_matching_darks tol l darks) \<noteq> []) lights;
                flats_ok = list_all (\<lambda>l. find_matching_flats l flats \<noteq> []) lights;
                bias_needed = list_ex (\<lambda>l. snd (find_matching_darks tol l darks)) lights;
                bias_ok = list_all (\<lambda>l. snd (find_matching_darks tol l darks) \<longrightarrow>
                                          find_matching_bias tol l bias_frames \<noteq> []) lights
            in \<lparr>has_lights = True, light_count = length lights, dark_count = length darks,
                flat_count = length flats, bias_count = length bias_frames,
                needs_bias = bias_needed,
                is_complete = (darks_ok \<and> flats_ok \<and> bias_ok),
                reason = (if \<not> darks_ok then ''No matching dark frames''
                          else if \<not> flats_ok then ''No matching flat frames''
                          else if \<not> bias_ok then ''No matching bias frames''
                          else [])\<rparr>))"

section \<open>Notions used to state the properties\<close>

text \<open>
  The directory \<open>d\<close> is the one reached in the tree \<open>t\<close> by following the names \<open>ns\<close>
  from its top.
\<close>

inductive subdir_at :: "dir_tree \<Rightarrow> string list \<Rightarrow> dir_tree \<Rightarrow> bool" where
  here: "subdir_at t [] t"
| below: "(n, t') \<in> set (dir_subdirs t) \<Longrightarrow> subdir_at t' ns d \<Longrightarrow> subdir_at t (n # ns) d"

text \<open>
  The name of a directory entry: not empty, not \<open>''.''\<close>, without a separator. A tree is
  well formed when all its directories have such names.
\<close>

definition valid_name :: "string \<Rightarrow> bool" where
  "valid_name n \<longleftrightarrow> n \<noteq> [] \<and> n \<noteq> ''.'' \<and> CHR ''/'' \<notin> set n"

fun wf_tree :: "dir_tree \<Rightarrow> bool" where
  "wf_tree (Dir files subs) = list_all (\<lambda>e. valid_name (fst e) \<and> wf_tree (snd e)) subs"

definition normal_path :: "path \<Rightarrow> bool" where
  "normal_path p \<longleftrightarrow> path_root p \<in> {[], ''/'', ''//''} \<and> list_all valid_name (path_parts p)"

text \<open>A file name that ends, ignoring case, with one of the three supported endings.\<close>

definition is_image_name :: "string \<Rightarrow> bool" where
  "is_image_name f = list_ex (\<lambda>ending. suffix ending (lower f)) [''.fits'', ''.fit'', ''.xisf'']"

text \<open>
  One path lies under another when both have the same root and the components of the
  second are the first components of the first; it is a proper ancestor of another when it
  has fewer components besides.
\<close>

definition lies_under :: "path \<Rightarrow> path \<Rightarrow> bool" where
  "lies_under p other \<longleftrightarrow> path_root p = path_root other \<and> prefix (path_parts other) (path_parts p)"

definition proper_ancestor :: "path \<Rightarrow> path \<Rightarrow> bool" where
  "proper_ancestor a p \<longleftrightarrow> path_root a = path_root p \<and> strict_prefix (path_parts a) (path_parts p)"

text \<open>A reason mentions a word when the word occurs in it, ignoring the reason's case.\<close>

definition mentions :: "string \<Rightarrow> string \<Rightarrow> bool" where
  "mentions w r \<longleftrightarrow> sublist w (lower r)"

definition names_missing_type :: "string \<Rightarrow> bool" where
  "names_missing_type r \<longleftrightarrow> mentions ''dark'' r \<or> mentions ''flat'' r \<or> mentions ''bias'' r"

text \<open>
  The six counters, the counter under which a directory falls by its verdict and by the
  outcome of its move, and the sum of the six.
\<close>

datatype counter =
  Moved | SkippedNoLights | SkippedNoDarks | SkippedNoFlats | SkippedNoBias | Errors

fun increment :: "counter \<Rightarrow> results \<Rightarrow> results" where
  "increment Moved res = res\<lparr>moved := moved res + 1\<rparr>"
| "increment SkippedNoLights res = res\<lparr>skipped_no_lights := skipped_no_lights res + 1\<rparr>"
| "increment SkippedNoDarks res = res\<lparr>skipped_no_darks := skipped_no_darks res + 1\<rparr>"
| "increment SkippedNoFlats res = res\<lparr>skipped_no_flats := skipped_no_flats res + 1\<rparr>"
| "increment SkippedNoBias res = res\<lparr>skipped_no_bias := skipped_no_bias res + 1\<rparr>"
| "increment Errors res = res\<lparr>errors := errors res + 1\<rparr>"

definition category :: "calibration_status \<Rightarrow> bool \<Rightarrow> counter" where
  "category st move_succeeded =
     (if \<not> has_lights st then SkippedNoLights
      else if \<not> is_complete st then
        (if mentions ''dark'' (reason st) then SkippedNoDarks
         else if mentions ''flat'' (reason st) then SkippedNoFlats
         else SkippedNoBias)
      else if move_succeeded then Moved
      else Errors)"

text \<open>
  The directory \<open>d\<close>, examined in the state \<open>fs\<close>, is moved with success: its verdict has
  lights and is complete, and \<open>move_directory\<close> to its destination returns \<open>True\<close>.
\<close>

definition moves_with_success ::
  "'fs env \<Rightarrow> string \<Rightarrow> path \<Rightarrow> bool \<Rightarrow> bool \<Rightarrow> 'fs \<Rightarrow> string \<Rightarrow> bool" where
  "moves_with_success env source_dir dest_path debug dry_run fs d \<longleftrightarrow>
     has_lights (status_of env fs d debug) \<and> is_complete (status_of env fs d debug) \<and>
     (case get_target_from_path env d source_dir of
        Inr rel \<Rightarrow> fst (move_directory env d (path_str (path_join dest_path rel)) debug dry_run fs)
      | Inl e \<Rightarrow> False)"

definition counters_total :: "results \<Rightarrow> nat" where
  "counters_total res =
     moved res + skipped_no_lights res + skipped_no_darks res + skipped_no_flats res
       + skipped_no_bias res + errors res"

section \<open>Concrete inputs\<close>

text \<open>
  A source tree \<open>/blink\<close> with four directories below its top, three of them with image
  files, and an environment over it whose state is the log of the operations performed:
  \<open>M31\<close> and \<open>NGC7000\<close> are complete, \<open>M31/flats_missing\<close> lacks flats, and moving
  \<open>NGC7000\<close> fails.
\<close>

definition demo_tree :: dir_tree where
  "demo_tree =
     Dir [''notes.txt'']
       [(''M31'', Dir [''L_0001.FITS'', ''D_0001.fits'']
                    [(''flats_missing'', Dir [''L_0002.xisf''] [])]),
        (''M42'', Dir [''readme.md''] []),
        (''NGC7000'', Dir [''l.Fit''] [])]"

definition demo_status :: "bool \<Rightarrow> string \<Rightarrow> calibration_status" where
  "demo_status cmpl rsn =
     \<lparr>has_lights = True, light_count = 1, dark_count = 1, flat_count = 0, bias_count = 0,
      needs_bias = False, is_complete = cmpl, reason = rsn\<rparr>"

definition demo_env :: "(string \<times> string) list env" where
  "demo_env =
     \<lparr>replace_env_vars = (\<lambda>s. s),
      tree_at = (\<lambda>fs p. if p = ''/blink'' then Some demo_tree else None),
      status_of = (\<lambda>fs d debug.
         if d = ''/blink/M31/flats_missing'' then demo_status False ''No matching Flats''
         else demo_status True []),
      mkdir_parents = (\<lambda>p fs. (None, fs @ [(''mkdir'', path_str p)])),
      shutil_move = (\<lambda>src dst fs.
         if src = ''/blink/NGC7000'' then (Some (OSError ''permission denied''), fs)
         else (None, fs @ [(src, dst)])),
      delete_empty_directories = (\<lambda>p debug fs. (None, fs @ [(''cleanup'', p)]))\<rparr>"

text \<open>
  The same verdicts as those of \<open>demo_env\<close>, with other counts and the bias flag set.
\<close>

definition demo_other_counts :: "(string \<times> string) list \<Rightarrow> string \<Rightarrow> bool \<Rightarrow> calibration_status" where
  "demo_other_counts fs d debug =
     (status_of demo_env fs d debug)
       \<lparr>light_count := 40, dark_count := 0, flat_count := 12, bias_count := 3,
        needs_bias := True\<rparr>"

text \<open>
  Three variants of \<open>demo_env\<close>: one in which moving \<open>/blink/M31\<close>, the first directory,
  fails and the other moves succeed; one in which every move fails; and one in which every
  directory has lights and is incomplete for a reason that names no kind of frame.
\<close>

definition demo_env_first_fails :: "(string \<times> string) list env" where
  "demo_env_first_fails =
     demo_env\<lparr>shutil_move := (\<lambda>src dst fs.
        if src = ''/blink/M31'' then (Some (OSError ''permission denied''), fs)
        else (None, fs @ [(src, dst)]))\<rparr>"

definition demo_env_no_move :: "(string \<times> string) list env" where
  "demo_env_no_move =
     demo_env\<lparr>shutil_move := (\<lambda>src dst fs. (Some (OSError ''permission denied''), fs))\<rparr>"

definition demo_env_unnamed_reason :: "(string \<times> string) list env" where
  "demo_env_unnamed_reason =
     demo_env\<lparr>status_of := (\<lambda>fs d debug. demo_status False ''Incomplete calibration'')\<rparr>"

definition demo_frame :: "frame_type option \<Rightarrow> frame" where
  "demo_frame ty =
     \<lparr>frame_file_path = ''f.fits'', frame_type = ty, frame_camera = Some ''C1'',
      frame_settemp = Some (-10), frame_gain = Some 100, frame_offset = Some 10,
      frame_readoutmode = Some ''0'', frame_exposure_seconds = Some 300,
      frame_date = Some ''2024-01-15'', frame_filter = Some ''Ha''\<rparr>"

section \<open>Strings, paths and walks\<close>

subsection \<open>Endings, beginnings and occurrences\<close>

lemma endswith_iff_suffix: "endswith s suf \<longleftrightarrow> suffix suf s"
proof
  assume "endswith s suf"
  then have "s = take (length s - length suf) s @ suf"
    by (simp add: endswith_def) (metis append_take_drop_id)
  then show "suffix suf s" by (metis suffixI)
next
  assume "suffix suf s"
  then obtain zs where "s = zs @ suf" by (auto simp: suffix_def)
  then show "endswith s suf" by (simp add: endswith_def)
qed

lemma has_images_iff: "has_images files \<longleftrightarrow> (\<exists>f \<in> set files. is_image_name f)"
  by (auto simp: has_images_def is_image_name_def endswith_iff_suffix list_ex_iff)

lemma startswith_iff_prefix: "startswith s pre \<longleftrightarrow> prefix pre s"
  by (metis startswith_def prefix_def append_eq_conv_conj take_is_prefix)

lemma str_contains_iff_sublist: "str_contains sub s \<longleftrightarrow> sublist sub s"
  by (induction s) (auto simp: startswith_iff_prefix sublist_Cons_right)

lemma str_contains_lower: "str_contains w (lower r) \<longleftrightarrow> mentions w r"
  by (simp add: mentions_def str_contains_iff_sublist)

subsection \<open>The triples of a walk are the directories of the tree\<close>

lemma subdir_at_walk:
  "subdir_at t ns d \<Longrightarrow>
   (foldl os_path_join tp ns, map fst (dir_subdirs d), dir_files d) \<in> set (os_walk tp t)"
proof (induction arbitrary: tp rule: subdir_at.induct)
  case (here t)
  then show ?case by (cases t) simp
next
  case (below n t' t ns d)
  then show ?case by (cases t) force
qed

lemma walk_subdir_at:
  "(r, ds, fs) \<in> set (os_walk tp t) \<Longrightarrow>
   \<exists>ns d. subdir_at t ns d \<and> r = foldl os_path_join tp ns
        \<and> ds = map fst (dir_subdirs d) \<and> fs = dir_files d"
proof (induction tp t arbitrary: r ds fs rule: os_walk.induct)
  case (1 tp files subs)
  from "1.prems" consider
    (top) "r = tp" "ds = map fst subs" "fs = files"
    | (sub) e where "e \<in> set subs"
        "(r, ds, fs) \<in> set (os_walk (os_path_join tp (fst e)) (snd e))"
    by auto
  then show ?case
  proof cases
    case top
    have "subdir_at (Dir files subs) [] (Dir files subs)" by (rule subdir_at.here)
    with top show ?thesis by force
  next
    case sub
    from "1.IH"[OF sub] obtain ns d where
      *: "subdir_at (snd e) ns d" "r = foldl os_path_join (os_path_join tp (fst e)) ns"
         "ds = map fst (dir_subdirs d)" "fs = dir_files d" by blast
    have "subdir_at (Dir files subs) (fst e # ns) d"
      using sub(1) *(1) by (intro subdir_at.below[where t' = "snd e"]) simp_all
    with * show ?thesis by force
  qed
qed

lemma subdir_at_valid_names:
  "subdir_at t ns d \<Longrightarrow> wf_tree t \<Longrightarrow> list_all valid_name ns"
proof (induction rule: subdir_at.induct)
  case (here t)
  then show ?case by simp
next
  case (below n t' t ns d)
  then show ?case by (cases t) (auto simp: list_all_iff)
qed

subsection \<open>Parsing a path that was put together\<close>

lemma split_sep_not_Nil: "split_sep s \<noteq> []"
  by (induction s) (auto split: list.splits)

lemma split_sep_append_sep: "split_sep (a @ CHR ''/'' # b) = split_sep a @ split_sep b"
proof (induction a)
  case Nil
  then show ?case by simp
next
  case (Cons c cs)
  obtain w ws where "split_sep cs = w # ws"
    using split_sep_not_Nil by (cases "split_sep cs") auto
  with Cons show ?case by simp
qed

lemma split_sep_no_sep: "CHR ''/'' \<notin> set n \<Longrightarrow> split_sep n = [n]"
  by (induction n) auto

lemma split_sep_parts_no_sep: "x \<in> set (split_sep s) \<Longrightarrow> CHR ''/'' \<notin> set x"
proof (induction s arbitrary: x)
  case Nil
  then show ?case by simp
next
  case (Cons c cs)
  then show ?case
    by (cases "split_sep cs") (auto split: if_splits)
qed

lemma dropWhile_append_keep:
  "b \<noteq> [] \<Longrightarrow> \<not> P (hd b) \<Longrightarrow> dropWhile P (a @ b) = dropWhile P a @ b"
  by (induction a) (auto simp: neq_Nil_conv)

lemma splitroot_append:
  assumes "b \<noteq> []" "hd b \<noteq> CHR ''/''"
  shows "splitroot (a @ b) = (fst (splitroot a), snd (splitroot a) @ b)"
proof (cases "a \<noteq> [] \<and> hd a = CHR ''/''")
  case True
  have dw: "dropWhile (\<lambda>c. c = CHR ''/'') (a @ b) = dropWhile (\<lambda>c. c = CHR ''/'') a @ b"
    using assms by (intro dropWhile_append_keep) simp_all
  have "length (dropWhile (\<lambda>c. c = CHR ''/'') a) \<le> length a"
    by (rule length_dropWhile_le)
  then have "length (a @ b) - length (dropWhile (\<lambda>c. c = CHR ''/'') a @ b)
      = length a - length (dropWhile (\<lambda>c. c = CHR ''/'') a)"
    by simp
  with True dw show ?thesis
    by (simp add: splitroot_def Let_def)
next
  case False
  with assms show ?thesis
    by (cases a) (auto simp: splitroot_def)
qed

lemma filter_parts_snoc_name:
  assumes "valid_name n" "a = [] \<or> (\<exists>a'. a = a' @ ''/'')"
  shows "filter (\<lambda>x. x \<noteq> [] \<and> x \<noteq> ''.'') (split_sep (a @ n))
       = filter (\<lambda>x. x \<noteq> [] \<and> x \<noteq> ''.'') (split_sep a) @ [n]"
proof -
  have n: "split_sep n = [n]" "n \<noteq> []" "n \<noteq> ''.''"
    using assms(1) by (auto simp: valid_name_def split_sep_no_sep)
  from assms(2) show ?thesis
  proof
    assume "a = []"
    with n show ?thesis by simp
  next
    assume "\<exists>a'. a = a' @ ''/''"
    then obtain a' where a: "a = a' @ ''/''" by blast
    have "split_sep (a @ n) = split_sep a' @ [n]"
      using split_sep_append_sep[of a' n] n by (simp add: a)
    moreover have "split_sep a = split_sep a' @ [[]]"
      using split_sep_append_sep[of a' "[]"] by (simp add: a)
    ultimately show ?thesis using n by simp
  qed
qed

lemma rel_ends_with_sep:
  assumes "a = [] \<or> (\<exists>a'. a = a' @ ''/'')"
  shows "snd (splitroot a) = [] \<or> (\<exists>r'. snd (splitroot a) = r' @ ''/'')"
proof (cases "a \<noteq> [] \<and> hd a = CHR ''/''")
  case True
  with assms obtain a' where a: "a = a' @ ''/''" by auto
  have "dropWhile (\<lambda>c. c = CHR ''/'') (a' @ ''/'') = []
      \<or> dropWhile (\<lambda>c. c = CHR ''/'') (a' @ ''/'') = dropWhile (\<lambda>c. c = CHR ''/'') a' @ ''/''"
    by (induction a') auto
  with True a show ?thesis by (auto simp: splitroot_def Let_def)
next
  case False
  with assms show ?thesis by (auto simp: splitroot_def)
qed

lemma Path_append_name:
  assumes "valid_name n" "a = [] \<or> (\<exists>a'. a = a' @ ''/'')"
  shows "Path (a @ n) = \<lparr>path_root = path_root (Path a), path_parts = path_parts (Path a) @ [n]\<rparr>"
proof -
  have n: "n \<noteq> []" "hd n \<noteq> CHR ''/''"
    using assms(1) by (cases n; auto simp: valid_name_def)+
  have sr: "splitroot (a @ n) = (fst (splitroot a), snd (splitroot a) @ n)"
    using n by (rule splitroot_append)
  have "filter (\<lambda>x. x \<noteq> [] \<and> x \<noteq> ''.'') (split_sep (snd (splitroot a) @ n))
      = filter (\<lambda>x. x \<noteq> [] \<and> x \<noteq> ''.'') (split_sep (snd (splitroot a))) @ [n]"
    using assms(1) rel_ends_with_sep[OF assms(2)] by (rule filter_parts_snoc_name)
  with sr show ?thesis
    by (simp add: Path_def split_beta)
qed

lemma Path_append_sep:
  assumes "a \<noteq> []" "last a \<noteq> CHR ''/''"
  shows "Path (a @ ''/'') = Path a"
proof -
  have mem: "last a \<in> set a" using assms(1) by simp
  have dw: "dropWhile (\<lambda>c. c = CHR ''/'') (a @ ''/'') = dropWhile (\<lambda>c. c = CHR ''/'') a @ ''/''"
    using mem assms(2) by (intro dropWhile_append1) auto
  have le: "length (dropWhile (\<lambda>c. c = CHR ''/'') a) \<le> length a"
    by (rule length_dropWhile_le)
  have sr: "splitroot (a @ ''/'') = (fst (splitroot a), snd (splitroot a) @ ''/'')"
    using assms(1) dw le by (cases a) (auto simp: splitroot_def Let_def)
  have "split_sep (snd (splitroot a) @ ''/'') = split_sep (snd (splitroot a)) @ [[]]"
    using split_sep_append_sep[of "snd (splitroot a)" "[]"] by simp
  with sr show ?thesis
    by (simp add: Path_def split_beta)
qed

lemma Path_os_path_join:
  assumes "valid_name n"
  shows "Path (os_path_join a n)
       = \<lparr>path_root = path_root (Path a), path_parts = path_parts (Path a) @ [n]\<rparr>"
proof -
  have n: "\<not> startswith n ''/''"
    using assms by (cases n) (auto simp: valid_name_def startswith_def)
  show ?thesis
  proof (cases "a = [] \<or> endswith a ''/''")
    case True
    then have "a = [] \<or> (\<exists>a'. a = a' @ ''/'')"
      by (auto simp: endswith_def) (metis append_take_drop_id)
    from Path_append_name[OF assms this] True n show ?thesis
      by (simp add: os_path_join_def)
  next
    case False
    have "endswith (b @ ''/'') ''/''" for b
      by (simp add: endswith_def)
    with False have a: "a \<noteq> []" "last a \<noteq> CHR ''/''"
      by (auto dest: append_butlast_last_id [symmetric]) (metis append_butlast_last_id)
    have "Path ((a @ ''/'') @ n)
        = \<lparr>path_root = path_root (Path (a @ ''/'')), path_parts = path_parts (Path (a @ ''/'')) @ [n]\<rparr>"
      using assms by (rule Path_append_name) blast
    with False n Path_append_sep[OF a] show ?thesis
      by (simp add: os_path_join_def)
  qed
qed


lemma join_sep_Cons: "ps \<noteq> [] \<Longrightarrow> join_sep (n # ps) = n @ CHR ''/'' # join_sep ps"
  by (cases ps) simp_all

lemma split_sep_join_sep:
  "ps \<noteq> [] \<Longrightarrow> list_all valid_name ps \<Longrightarrow> split_sep (join_sep ps) = ps"
proof (induction ps)
  case Nil
  then show ?case by simp
next
  case (Cons n ps)
  have n: "split_sep n = [n]"
    using Cons.prems by (simp add: valid_name_def split_sep_no_sep)
  show ?case
  proof (cases "ps = []")
    case True
    with n show ?thesis by simp
  next
    case False
    with Cons have "split_sep (join_sep ps) = ps" by simp
    with False n show ?thesis
      by (simp add: join_sep_Cons split_sep_append_sep)
  qed
qed

lemma join_sep_starts_with_name:
  "ps \<noteq> [] \<Longrightarrow> list_all valid_name ps \<Longrightarrow> join_sep ps \<noteq> [] \<and> hd (join_sep ps) \<noteq> CHR ''/''"
  by (cases ps rule: join_sep.cases) (auto simp: valid_name_def neq_Nil_conv)

lemma filter_valid_names:
  "list_all valid_name ps \<Longrightarrow> filter (\<lambda>x. x \<noteq> [] \<and> x \<noteq> ''.'') ps = ps"
  by (induction ps) (auto simp: valid_name_def)

lemma Path_path_str:
  assumes "normal_path p"
  shows "Path (path_str p) = p"
proof (cases "path_parts p = []")
  case True
  with assms show ?thesis
    by (cases p) (auto simp: normal_path_def path_str_def Path_def splitroot_def)
next
  case False
  have valid: "list_all valid_name (path_parts p)"
    using assms by (simp add: normal_path_def)
  have j: "join_sep (path_parts p) \<noteq> []" "hd (join_sep (path_parts p)) \<noteq> CHR ''/''"
    using join_sep_starts_with_name[OF False valid] by simp_all
  have "splitroot (path_root p) = (path_root p, [])"
    using assms by (auto simp: normal_path_def splitroot_def)
  with splitroot_append[OF j, of "path_root p"]
  have "splitroot (path_root p @ join_sep (path_parts p)) = (path_root p, join_sep (path_parts p))"
    by simp
  with False have "Path (path_str p) = \<lparr>path_root = path_root p, path_parts = path_parts p\<rparr>"
    by (simp add: path_str_def Path_def split_sep_join_sep[OF False valid]
        filter_valid_names[OF valid])
  then show ?thesis by simp
qed

lemma normal_path_Path: "normal_path (Path s)"
proof -
  have "path_root (Path s) \<in> {[], ''/'', ''//''}"
    by (simp add: Path_def splitroot_def Let_def)
  moreover have "list_all valid_name (path_parts (Path s))"
    by (auto simp: Path_def split_beta list_all_iff valid_name_def dest: split_sep_parts_no_sep)
  ultimately show ?thesis by (simp add: normal_path_def)
qed

lemma Path_walk_path:
  "list_all valid_name ns \<Longrightarrow>
   Path (foldl os_path_join tp ns)
     = \<lparr>path_root = path_root (Path tp), path_parts = path_parts (Path tp) @ ns\<rparr>"
proof (induction ns arbitrary: tp)
  case Nil
  then show ?case by simp
next
  case (Cons n ns)
  then show ?case by (simp add: Path_os_path_join)
qed

section \<open>Properties of the completeness evaluator\<close>

text \<open>
  C1. A frame list without any frame classified as LIGHT gives the verdict
  \<open>has_lights = False\<close>, \<open>is_complete = False\<close> with the reason "No light frames found",
  whatever dark, flat and bias frames it holds; the three calibration counts are the
  numbers of those frames, and the light count is zero.
\<close>

theorem check_calibration_status_no_lights:
  assumes "get_frames_by_type frames LIGHT = []"
  shows "has_lights (check_calibration_status tol frames) = False
       \<and> is_complete (check_calibration_status tol frames) = False
       \<and> reason (check_calibration_status tol frames) = ''No light frames found''
       \<and> light_count (check_calibration_status tol frames) = 0
       \<and> dark_count (check_calibration_status tol frames) = length (get_frames_by_type frames DARK)
       \<and> flat_count (check_calibration_status tol frames) = length (get_frames_by_type frames FLAT)
       \<and> bias_count (check_calibration_status tol frames) = length (get_frames_by_type frames BIAS)"
  using assms by (simp add: check_calibration_status_def light_frames_def)

text \<open>Two darks, a flat and a frame without type: the two darks and the flat are counted.\<close>

theorem check_calibration_status_no_lights_witness:
  "get_frames_by_type
     [demo_frame (Some DARK), demo_frame (Some DARK), demo_frame (Some FLAT), demo_frame None]
     LIGHT = []
   \<and> reason (check_calibration_status 1
        [demo_frame (Some DARK), demo_frame (Some DARK), demo_frame (Some FLAT), demo_frame None])
       = ''No light frames found''
   \<and> dark_count (check_calibration_status 1
        [demo_frame (Some DARK), demo_frame (Some DARK), demo_frame (Some FLAT), demo_frame None])
       = 2
   \<and> flat_count (check_calibration_status 1
        [demo_frame (Some DARK), demo_frame (Some DARK), demo_frame (Some FLAT), demo_frame None])
       = 1"
proof -
  have none: "get_frames_by_type
     [demo_frame (Some DARK), demo_frame (Some DARK), demo_frame (Some FLAT), demo_frame None]
     LIGHT = []"
    by (simp add: get_frames_by_type_def demo_frame_def)
  show ?thesis
    using none check_calibration_status_no_lights [OF none, of 1]
    by (simp add: get_frames_by_type_def demo_frame_def)
qed

section \<open>Properties of \<open>find_light_directories\<close>\<close>

lemma find_light_directories_set:
  assumes "tree_at env fs (path_str (Path (replace_env_vars env source_dir))) = Some t"
  shows "set (find_light_directories env source_dir debug fs)
       = {foldl os_path_join (path_str (Path (replace_env_vars env source_dir))) ns | ns d.
            subdir_at t ns d \<and> (\<exists>f \<in> set (dir_files d). is_image_name f)}"
    (is "?L = ?R")
proof
  let ?tp = "path_str (Path (replace_env_vars env source_dir))"
  have L: "?L = {r. \<exists>ds fs. (r, ds, fs) \<in> set (os_walk ?tp t) \<and> has_images fs}"
    using assms by (force simp: find_light_directories_def)
  show "?L \<subseteq> ?R"
  proof
    fix r assume "r \<in> ?L"
    with L obtain ds fs where "(r, ds, fs) \<in> set (os_walk ?tp t)" "has_images fs" by blast
    with walk_subdir_at[of r ds fs ?tp t] show "r \<in> ?R"
      by (auto simp: has_images_iff)
  qed
  show "?R \<subseteq> ?L"
  proof
    fix r assume "r \<in> ?R"
    then obtain ns d where "subdir_at t ns d" "r = foldl os_path_join ?tp ns"
      "\<exists>f \<in> set (dir_files d). is_image_name f" by blast
    with subdir_at_walk[of t ns d ?tp] L show "r \<in> ?L"
      by (auto simp: has_images_iff)
  qed
qed

text \<open>
  C5. Over a source tree, \<open>find_light_directories\<close> returns a sorted list without
  repetitions, and the paths in it are exactly the paths of those directories of the tree
  that hold directly a file whose name ends, ignoring case, with \<open>.fits\<close>, \<open>.fit\<close> or
  \<open>.xisf\<close>. A path at which no directory holds such a file is therefore not returned.
\<close>

theorem find_light_directories_exact:
  assumes "tree_at env fs (path_str (Path (replace_env_vars env source_dir))) = Some t"
  shows "sorted (find_light_directories env source_dir debug fs)
       \<and> distinct (find_light_directories env source_dir debug fs)
       \<and> set (find_light_directories env source_dir debug fs)
           = {foldl os_path_join (path_str (Path (replace_env_vars env source_dir))) ns | ns d.
                subdir_at t ns d \<and> (\<exists>f \<in> set (dir_files d). is_image_name f)}"
proof -
  have "sorted (find_light_directories env source_dir debug fs)"
    by (simp add: find_light_directories_def Let_def)
  moreover have "distinct (find_light_directories env source_dir debug fs)"
    by (simp add: find_light_directories_def Let_def)
  ultimately show ?thesis
    using find_light_directories_set[OF assms] by simp
qed

text \<open>
  In the tree \<open>demo_tree\<close> the directories \<open>M31\<close>, \<open>M31/flats_missing\<close> and \<open>NGC7000\<close> hold
  image files; the top and \<open>M42\<close> do not.
\<close>

theorem find_light_directories_exact_witness:
  "tree_at demo_env [] (path_str (Path (replace_env_vars demo_env ''/blink''))) = Some demo_tree
   \<and> find_light_directories demo_env ''/blink'' False []
       = [''/blink/M31'', ''/blink/M31/flats_missing'', ''/blink/NGC7000'']
   \<and> set [''/blink/M31'', ''/blink/M31/flats_missing'', ''/blink/NGC7000'']
       = {foldl os_path_join (path_str (Path (replace_env_vars demo_env ''/blink''))) ns | ns d.
            subdir_at demo_tree ns d \<and> (\<exists>f \<in> set (dir_files d). is_image_name f)}"
proof -
  have tree: "tree_at demo_env [] (path_str (Path (replace_env_vars demo_env ''/blink''))) = Some demo_tree"
    by code_simp
  have found: "find_light_directories demo_env ''/blink'' False []
       = [''/blink/M31'', ''/blink/M31/flats_missing'', ''/blink/NGC7000'']"
    by code_simp
  show ?thesis
    using tree found find_light_directories_exact [OF tree, of False]
    by simp
qed

text \<open>
  C6. The claim is that no returned directory is a proper ancestor of another one. The
  function returns every directory that holds an image file, whether or not it has
  subdirectories: over \<open>demo_tree\<close> it returns \<open>/blink/M31\<close> together with
  \<open>/blink/M31/flats_missing\<close>, which lies below it.
\<close>

theorem find_light_directories_returns_ancestor:
  "find_light_directories demo_env ''/blink'' False []
     = [''/blink/M31'', ''/blink/M31/flats_missing'', ''/blink/NGC7000'']
   \<and> proper_ancestor (Path ''/blink/M31'') (Path ''/blink/M31/flats_missing'')"
  by code_simp

section \<open>Properties of \<open>get_target_from_path\<close>\<close>

lemma relative_to_cases:
  "relative_to p other =
     (if lies_under p other
      then Inr \<lparr>path_root = [], path_parts = drop (length (path_parts other)) (path_parts p)\<rparr>
      else Inl ValueError)"
proof -
  have "take (length (path_parts other)) (path_parts p) = path_parts other
      \<longleftrightarrow> prefix (path_parts other) (path_parts p)"
    by (metis append_eq_conv_conj prefix_def take_is_prefix)
  then show ?thesis
    by (simp add: relative_to_def lies_under_def Let_def)
qed

lemma get_target_from_path_cases:
  "get_target_from_path env light_dir source_dir =
     Inr (if lies_under (Path light_dir) (Path (replace_env_vars env source_dir))
          then path_str \<lparr>path_root = [],
                  path_parts = drop (length (path_parts (Path (replace_env_vars env source_dir))))
                                 (path_parts (Path light_dir))\<rparr>
          else path_name (Path light_dir))"
  by (simp add: get_target_from_path_def relative_to_cases Let_def)

text \<open>
  C10. \<open>get_target_from_path\<close> always returns a string and raises nothing. When the light
  directory lies under the source directory, after the environment variables of the
  latter are replaced, it returns the remaining components as a relative path; otherwise
  it returns the name of the light directory, its last component.
\<close>

theorem get_target_from_path_total:
  "(\<exists>r. get_target_from_path env light_dir source_dir = Inr r)
   \<and> (\<forall>rest. path_root (Path light_dir) = path_root (Path (replace_env_vars env source_dir))
          \<and> path_parts (Path light_dir) = path_parts (Path (replace_env_vars env source_dir)) @ rest
        \<longrightarrow> get_target_from_path env light_dir source_dir
              = Inr (path_str \<lparr>path_root = [], path_parts = rest\<rparr>))
   \<and> (\<not> lies_under (Path light_dir) (Path (replace_env_vars env source_dir))
        \<longrightarrow> get_target_from_path env light_dir source_dir = Inr (path_name (Path light_dir)))"
  by (auto simp: get_target_from_path_cases lies_under_def)

text \<open>One directory two levels below the source, and one outside it.\<close>

theorem get_target_from_path_total_witness:
  "path_root (Path ''/blink/M31/flats_missing'') = path_root (Path (replace_env_vars demo_env ''/blink/''))
   \<and> path_parts (Path ''/blink/M31/flats_missing'')
       = path_parts (Path (replace_env_vars demo_env ''/blink/'')) @ [''M31'', ''flats_missing'']
   \<and> get_target_from_path demo_env ''/blink/M31/flats_missing'' ''/blink/'' = Inr ''M31/flats_missing''
   \<and> \<not> lies_under (Path ''/data/M31'') (Path (replace_env_vars demo_env ''/blink/''))
   \<and> get_target_from_path demo_env ''/data/M31'' ''/blink/'' = Inr ''M31''"
proof -
  have under: "path_root (Path ''/blink/M31/flats_missing'') = path_root (Path (replace_env_vars demo_env ''/blink/''))
      \<and> path_parts (Path ''/blink/M31/flats_missing'')
          = path_parts (Path (replace_env_vars demo_env ''/blink/'')) @ [''M31'', ''flats_missing'']"
    by code_simp
  have outside: "\<not> lies_under (Path ''/data/M31'') (Path (replace_env_vars demo_env ''/blink/''))"
    by code_simp
  have name: "path_name (Path ''/data/M31'') = ''M31''"
    by code_simp
  have str: "path_str \<lparr>path_root = [], path_parts = [''M31'', ''flats_missing'']\<rparr> = ''M31/flats_missing''"
    by code_simp
  show ?thesis
    using under outside name str
      get_target_from_path_total [of demo_env "''/blink/M31/flats_missing''" "''/blink/''"]
      get_target_from_path_total [of demo_env "''/data/M31''" "''/blink/''"]
    by simp
qed

section \<open>Properties of \<open>process_light_directories\<close>\<close>

subsection \<open>The body of the loop\<close>

lemma get_target_from_path_Inr: "\<exists>rel. get_target_from_path env light_dir source_dir = Inr rel"
  by (simp add: get_target_from_path_cases)

lemma get_target_from_path_walked:
  assumes "list_all valid_name ns"
  shows "get_target_from_path env
           (foldl os_path_join (path_str (Path (replace_env_vars env source_dir))) ns) source_dir
         = Inr (path_str \<lparr>path_root = [], path_parts = ns\<rparr>)"
proof -
  let ?S = "Path (replace_env_vars env source_dir)"
  have S: "Path (path_str ?S) = ?S"
    by (rule Path_path_str) (rule normal_path_Path)
  have L: "Path (foldl os_path_join (path_str ?S) ns)
         = \<lparr>path_root = path_root ?S, path_parts = path_parts ?S @ ns\<rparr>"
    using Path_walk_path[OF assms, of "path_str ?S"] by (simp add: S)
  show ?thesis
    by (simp add: get_target_from_path_cases L lies_under_def)
qed

lemma path_join_relative:
  assumes "list_all valid_name ns"
  shows "path_join D (path_str \<lparr>path_root = [], path_parts = ns\<rparr>)
       = \<lparr>path_root = path_root D, path_parts = path_parts D @ ns\<rparr>"
proof -
  have "normal_path \<lparr>path_root = [], path_parts = ns\<rparr>"
    using assms by (simp add: normal_path_def)
  then have "Path (path_str \<lparr>path_root = [], path_parts = ns\<rparr>) = \<lparr>path_root = [], path_parts = ns\<rparr>"
    by (rule Path_path_str)
  then show ?thesis
    by (simp add: path_join_def)
qed

lemma process_image_dir_unfold:
  assumes "get_target_from_path env image_dir source_dir = Inr rel"
  shows "process_image_dir env source_dir dest_path debug dry_run image_dir res fs =
     (if \<not> has_lights (status_of env fs image_dir debug) then (Inr (increment SkippedNoLights res), fs)
      else if \<not> is_complete (status_of env fs image_dir debug) then
        (Inr (if names_missing_type (reason (status_of env fs image_dir debug))
              then increment (category (status_of env fs image_dir debug) False) res
              else res), fs)
      else (Inr (increment
                  (if fst (move_directory env image_dir (path_str (path_join dest_path rel)) debug dry_run fs)
                   then Moved else Errors) res),
            snd (move_directory env image_dir (path_str (path_join dest_path rel)) debug dry_run fs)))"
  using assms
  by (simp add: process_image_dir_def Let_def category_def names_missing_type_def
      str_contains_lower split_beta)

lemma process_image_dir_Inr:
  "\<exists>res1 fs1. process_image_dir env source_dir dest_path debug dry_run image_dir res fs = (Inr res1, fs1)"
proof -
  obtain rel where "get_target_from_path env image_dir source_dir = Inr rel"
    using get_target_from_path_Inr[of env image_dir source_dir] by blast
  then show ?thesis
    by (simp add: process_image_dir_unfold)
qed

lemma process_dirs_Inr:
  "\<exists>res1 fs1. process_dirs env source_dir dest_path debug dry_run dirs res fs = (Inr res1, fs1)"
proof (induction dirs arbitrary: res fs)
  case Nil
  then show ?case by simp
next
  case (Cons d ds)
  obtain res1 fs1 where
    "process_image_dir env source_dir dest_path debug dry_run d res fs = (Inr res1, fs1)"
    using process_image_dir_Inr[of env source_dir dest_path debug dry_run d res fs] by blast
  with Cons[of res1 fs1] show ?case by simp
qed

lemma move_directory_dry_run: "move_directory env source dest debug True fs = (True, fs)"
  by (simp add: move_directory_def)

lemma move_directory_fails:
  assumes "fst (mkdir_parents env (path_parent (Path dest)) fs) \<noteq> None
         \<or> fst (shutil_move env (path_str (Path source)) (path_str (Path dest))
                  (snd (mkdir_parents env (path_parent (Path dest)) fs))) \<noteq> None"
  shows "fst (move_directory env source dest debug False fs) = False"
  using assms
  by (auto simp: move_directory_def Let_def split: prod.splits option.splits)

lemma counters_total_increment: "counters_total (increment c res) = counters_total res + 1"
  by (cases c) (simp_all add: counters_total_def)

subsection \<open>The loop and the run\<close>

lemma process_dirs_append:
  "process_dirs env source_dir dest_path debug dry_run (xs @ ys) res fs =
     (case process_dirs env source_dir dest_path debug dry_run xs res fs of
        (Inl e, fs1) \<Rightarrow> (Inl e, fs1)
      | (Inr res1, fs1) \<Rightarrow> process_dirs env source_dir dest_path debug dry_run ys res1 fs1)"
  by (induction xs arbitrary: res fs) (auto split: prod.splits sum.splits)

lemma process_dirs_snoc:
  assumes "process_dirs env source_dir dest_path debug dry_run before res fs = (Inr res0, fs0)"
  shows "process_dirs env source_dir dest_path debug dry_run (before @ [d]) res fs
       = process_image_dir env source_dir dest_path debug dry_run d res0 fs0"
  using assms by (simp add: process_dirs_append split: prod.splits sum.splits)

lemma process_dirs_split:
  assumes "process_dirs env source_dir dest_path debug dry_run (before @ [d]) res fs = (Inr res1, fs1)"
  shows "process_dirs env source_dir dest_path debug dry_run (before @ d # after) res fs
       = process_dirs env source_dir dest_path debug dry_run after res1 fs1"
proof -
  have "before @ d # after = (before @ [d]) @ after" by simp
  then show ?thesis
    using assms by (simp only: process_dirs_append) simp
qed

lemma run_reaches_directory:
  assumes "d \<in> set dirs"
  shows "\<exists>before after res0 fs0. dirs = before @ d # after
           \<and> process_dirs env source_dir dest_path debug dry_run before res fs = (Inr res0, fs0)"
proof -
  from assms obtain before after where "dirs = before @ d # after"
    by (auto dest: split_list)
  moreover obtain res0 fs0 where
    "process_dirs env source_dir dest_path debug dry_run before res fs = (Inr res0, fs0)"
    using process_dirs_Inr[of env source_dir dest_path debug dry_run before res fs] by blast
  ultimately show ?thesis by blast
qed

lemma process_light_directories_after_loop:
  assumes "process_dirs env source_dir (Path (replace_env_vars env dest_dir)) debug dry_run
             (find_light_directories env source_dir debug fs) initial_results fs = (Inr res1, fs1)"
  shows "process_light_directories env source_dir dest_dir debug dry_run fs
       = (if \<not> dry_run \<and> 0 < moved res1
          then (case delete_empty_directories env
                       (path_str (Path (replace_env_vars env source_dir))) debug fs1 of
                  (Some e, fs2) \<Rightarrow> (Inl e, fs2)
                | (None, fs2) \<Rightarrow> (Inr res1, fs2))
          else (Inr res1, fs1))"
proof (cases "find_light_directories env source_dir debug fs = []")
  case True
  with assms have "res1 = initial_results" "fs1 = fs" by simp_all
  with True show ?thesis
    by (simp add: process_light_directories_def initial_results_def)
next
  case False
  with assms show ?thesis
    by (simp add: process_light_directories_def Let_def)
qed

lemma process_image_dir_moved:
  assumes "process_image_dir env source_dir dest_path debug dry_run d res fs = (Inr res1, fs1)"
  shows "moved res1 = moved res
           + (if moves_with_success env source_dir dest_path debug dry_run fs d then 1 else 0)"
    and "errors res \<le> errors res1"
    and "counters_total res1 \<le> counters_total res + 1"
proof -
  obtain rel where target: "get_target_from_path env d source_dir = Inr rel"
    using get_target_from_path_Inr[of env d source_dir] by blast
  from assms show "moved res1 = moved res
           + (if moves_with_success env source_dir dest_path debug dry_run fs d then 1 else 0)"
    by (auto simp: process_image_dir_unfold[OF target] moves_with_success_def target category_def
        split: if_splits)
  from assms show "errors res \<le> errors res1"
    by (auto simp: process_image_dir_unfold[OF target] category_def split: if_splits)
  from assms show "counters_total res1 \<le> counters_total res + 1"
    by (auto simp: process_image_dir_unfold[OF target] counters_total_def category_def
        split: if_splits)
qed

lemma process_dirs_grows:
  assumes "process_dirs env source_dir dest_path debug dry_run dirs res fs = (Inr res1, fs1)"
  shows "moved res \<le> moved res1 \<and> errors res \<le> errors res1
       \<and> counters_total res1 \<le> counters_total res + length dirs"
  using assms
proof (induction dirs arbitrary: res fs)
  case Nil
  then show ?case by simp
next
  case (Cons d ds)
  obtain r f where step:
    "process_image_dir env source_dir dest_path debug dry_run d res fs = (Inr r, f)"
    using process_image_dir_Inr[of env source_dir dest_path debug dry_run d res fs] by blast
  with Cons.prems have rest:
    "process_dirs env source_dir dest_path debug dry_run ds r f = (Inr res1, fs1)"
    by simp
  from process_image_dir_moved[OF step] Cons.IH[OF rest] show ?case
    by (auto split: if_splits)
qed

lemma moved_grows_iff:
  assumes "process_dirs env source_dir dest_path debug dry_run dirs res fs = (Inr res1, fs1)"
  shows "moved res < moved res1 \<longleftrightarrow>
     (\<exists>before d after res0 fs0.
        dirs = before @ d # after
      \<and> process_dirs env source_dir dest_path debug dry_run before res fs = (Inr res0, fs0)
      \<and> moves_with_success env source_dir dest_path debug dry_run fs0 d)"
  using assms
proof (induction dirs arbitrary: res fs)
  case Nil
  then show ?case by simp
next
  case (Cons x xs)
  obtain r f where step:
    "process_image_dir env source_dir dest_path debug dry_run x res fs = (Inr r, f)"
    using process_image_dir_Inr[of env source_dir dest_path debug dry_run x res fs] by blast
  with Cons.prems have rest:
    "process_dirs env source_dir dest_path debug dry_run xs r f = (Inr res1, fs1)"
    by simp
  note IH = Cons.IH[OF rest]
  note here = process_image_dir_moved(1)[OF step]
  have grows: "moved r \<le> moved res1"
    using process_dirs_grows[OF rest] by simp
  show ?case
  proof
    assume less: "moved res < moved res1"
    show "\<exists>before d after res0 fs0.
        x # xs = before @ d # after
      \<and> process_dirs env source_dir dest_path debug dry_run before res fs = (Inr res0, fs0)
      \<and> moves_with_success env source_dir dest_path debug dry_run fs0 d"
    proof (cases "moves_with_success env source_dir dest_path debug dry_run fs x")
      case True
      have "x # xs = [] @ x # xs" by simp
      moreover have "process_dirs env source_dir dest_path debug dry_run [] res fs = (Inr res, fs)"
        by simp
      ultimately show ?thesis using True by blast
    next
      case False
      with here less have "moved r < moved res1" by simp
      with IH obtain before d after res0 fs0 where
        *: "xs = before @ d # after"
           "process_dirs env source_dir dest_path debug dry_run before r f = (Inr res0, fs0)"
           "moves_with_success env source_dir dest_path debug dry_run fs0 d"
        by blast
      have "x # xs = (x # before) @ d # after" using *(1) by simp
      moreover have
        "process_dirs env source_dir dest_path debug dry_run (x # before) res fs = (Inr res0, fs0)"
        using step *(2) by simp
      ultimately show ?thesis using *(3) by blast
    qed
  next
    assume "\<exists>before d after res0 fs0.
        x # xs = before @ d # after
      \<and> process_dirs env source_dir dest_path debug dry_run before res fs = (Inr res0, fs0)
      \<and> moves_with_success env source_dir dest_path debug dry_run fs0 d"
    then obtain before d after res0 fs0 where
      *: "x # xs = before @ d # after"
         "process_dirs env source_dir dest_path debug dry_run before res fs = (Inr res0, fs0)"
         "moves_with_success env source_dir dest_path debug dry_run fs0 d"
      by blast
    show "moved res < moved res1"
    proof (cases before)
      case Nil
      with * have "d = x" "fs0 = fs" by simp_all
      with *(3) here grows show ?thesis by simp
    next
      case (Cons y before')
      with *(1) have xs: "y = x" "xs = before' @ d # after" by simp_all
      from *(2) Cons xs(1) step have
        "process_dirs env source_dir dest_path debug dry_run before' r f = (Inr res0, fs0)"
        by simp
      with xs(2) *(3) IH have "moved r < moved res1" by blast
      with here show ?thesis by (simp split: if_splits)
    qed
  qed
qed

lemma move_directory_True_iff:
  "fst (move_directory env source dest debug False fs) \<longleftrightarrow>
     fst (mkdir_parents env (path_parent (Path dest)) fs) = None
   \<and> fst (shutil_move env (path_str (Path source)) (path_str (Path dest))
            (snd (mkdir_parents env (path_parent (Path dest)) fs))) = None"
  by (auto simp: move_directory_def Let_def split: prod.splits option.splits)

subsection \<open>Which directories are moved, and where\<close>

text \<open>
  C2. Let the source tree be well formed and let \<open>image_dir\<close> be one of the directories
  that a run of \<open>process_light_directories\<close> finds. The run reaches it after the
  directories \<open>before\<close> it, with the counters \<open>res0\<close> and in the state \<open>fs0\<close>; it is the
  directory of the tree reached from the source directory by the names \<open>ns\<close>. When its
  verdict in that state has both \<open>has_lights\<close> and \<open>is_complete\<close>, the run calls
  \<open>move_directory\<close> for it, with the destination directory extended by \<open>ns\<close> as the
  destination, takes over the state that call leaves, and counts the outcome under
  \<open>moved\<close> or \<open>errors\<close>. When the verdict lacks either, the state stays as it was and
  neither \<open>moved\<close> nor \<open>errors\<close> changes. From there the run goes through the directories
  \<open>after\<close> it and ends with the cleanup step.
\<close>

theorem move_iff_lights_and_complete:
  assumes tree: "tree_at env fs (path_str (Path (replace_env_vars env source_dir))) = Some t"
      and wf: "wf_tree t"
      and examined: "image_dir \<in> set (find_light_directories env source_dir debug fs)"
  shows "\<exists>before after res0 fs0 ns d res1 fs1 res2 fs2.
           find_light_directories env source_dir debug fs = before @ image_dir # after
         \<and> process_dirs env source_dir (Path (replace_env_vars env dest_dir)) debug dry_run
               before initial_results fs = (Inr res0, fs0)
         \<and> subdir_at t ns d
         \<and> image_dir = foldl os_path_join (path_str (Path (replace_env_vars env source_dir))) ns
         \<and> (if has_lights (status_of env fs0 image_dir debug)
                \<and> is_complete (status_of env fs0 image_dir debug)
             then \<exists>ok.
                    move_directory env image_dir
                      (path_str \<lparr>path_root = path_root (Path (replace_env_vars env dest_dir)),
                                 path_parts = path_parts (Path (replace_env_vars env dest_dir)) @ ns\<rparr>)
                      debug dry_run fs0 = (ok, fs1)
                  \<and> res1 = (if ok then res0\<lparr>moved := moved res0 + 1\<rparr>
                            else res0\<lparr>errors := errors res0 + 1\<rparr>)
             else fs1 = fs0 \<and> moved res1 = moved res0 \<and> errors res1 = errors res0)
         \<and> process_dirs env source_dir (Path (replace_env_vars env dest_dir)) debug dry_run
               (before @ [image_dir]) initial_results fs = (Inr res1, fs1)
         \<and> process_dirs env source_dir (Path (replace_env_vars env dest_dir)) debug dry_run
               after res1 fs1 = (Inr res2, fs2)
         \<and> process_light_directories env source_dir dest_dir debug dry_run fs
             = (if \<not> dry_run \<and> 0 < moved res2
                then (case delete_empty_directories env
                             (path_str (Path (replace_env_vars env source_dir))) debug fs2 of
                        (Some e, fs3) \<Rightarrow> (Inl e, fs3)
                      | (None, fs3) \<Rightarrow> (Inr res2, fs3))
                else (Inr res2, fs2))"
proof -
  let ?D = "Path (replace_env_vars env dest_dir)"
  let ?S = "Path (replace_env_vars env source_dir)"
  let ?dirs = "find_light_directories env source_dir debug fs"
  from run_reaches_directory[OF examined, of env source_dir ?D debug dry_run initial_results fs]
  obtain before after res0 fs0 where
    dirs: "?dirs = before @ image_dir # after"
    and reached: "process_dirs env source_dir ?D debug dry_run before initial_results fs = (Inr res0, fs0)"
    by blast
  from examined find_light_directories_set[OF tree, of debug]
  obtain ns d where sub: "subdir_at t ns d"
    and dir: "image_dir = foldl os_path_join (path_str ?S) ns"
    by blast
  have valid: "list_all valid_name ns"
    using sub wf by (rule subdir_at_valid_names)
  have target: "get_target_from_path env image_dir source_dir
      = Inr (path_str \<lparr>path_root = [], path_parts = ns\<rparr>)"
    unfolding dir using valid by (rule get_target_from_path_walked)
  have dest: "path_join ?D (path_str \<lparr>path_root = [], path_parts = ns\<rparr>)
      = \<lparr>path_root = path_root ?D, path_parts = path_parts ?D @ ns\<rparr>"
    using valid by (rule path_join_relative)
  obtain res1 fs1 where
    step: "process_image_dir env source_dir ?D debug dry_run image_dir res0 fs0 = (Inr res1, fs1)"
    using process_image_dir_Inr[of env source_dir ?D debug dry_run image_dir res0 fs0] by blast
  have body: "(if has_lights (status_of env fs0 image_dir debug)
                \<and> is_complete (status_of env fs0 image_dir debug)
             then \<exists>ok.
                    move_directory env image_dir
                      (path_str \<lparr>path_root = path_root ?D, path_parts = path_parts ?D @ ns\<rparr>)
                      debug dry_run fs0 = (ok, fs1)
                  \<and> res1 = (if ok then res0\<lparr>moved := moved res0 + 1\<rparr>
                            else res0\<lparr>errors := errors res0 + 1\<rparr>)
             else fs1 = fs0 \<and> moved res1 = moved res0 \<and> errors res1 = errors res0)"
    using step
    by (cases "move_directory env image_dir
                 (path_str \<lparr>path_root = path_root ?D, path_parts = path_parts ?D @ ns\<rparr>)
                 debug dry_run fs0")
       (auto simp: process_image_dir_unfold[OF target] dest category_def split: if_splits)
  have upto: "process_dirs env source_dir ?D debug dry_run (before @ [image_dir]) initial_results fs
      = (Inr res1, fs1)"
    using process_dirs_snoc[OF reached] step by simp
  obtain res2 fs2 where
    rest: "process_dirs env source_dir ?D debug dry_run after res1 fs1 = (Inr res2, fs2)"
    using process_dirs_Inr[of env source_dir ?D debug dry_run after res1 fs1] by blast
  have "process_dirs env source_dir ?D debug dry_run ?dirs initial_results fs = (Inr res2, fs2)"
    unfolding dirs using process_dirs_split[OF upto] rest by simp
  then have run: "process_light_directories env source_dir dest_dir debug dry_run fs
             = (if \<not> dry_run \<and> 0 < moved res2
                then (case delete_empty_directories env (path_str ?S) debug fs2 of
                        (Some e, fs3) \<Rightarrow> (Inl e, fs3)
                      | (None, fs3) \<Rightarrow> (Inr res2, fs3))
                else (Inr res2, fs2))"
    by (rule process_light_directories_after_loop)
  from dirs reached sub dir body upto rest run show ?thesis
    by blast
qed

text \<open>
  The run over \<open>demo_tree\<close> finds \<open>/blink/M31\<close> first; it is complete and is moved to
  \<open>/data/M31\<close>.
\<close>

theorem move_iff_lights_and_complete_witness:
  "tree_at demo_env [] (path_str (Path (replace_env_vars demo_env ''/blink''))) = Some demo_tree
   \<and> wf_tree demo_tree
   \<and> ''/blink/M31'' \<in> set (find_light_directories demo_env ''/blink'' False [])
   \<and> (\<exists>before after res0 fs0 ns d res1 fs1 res2 fs2.
           find_light_directories demo_env ''/blink'' False [] = before @ ''/blink/M31'' # after
         \<and> process_dirs demo_env ''/blink'' (Path (replace_env_vars demo_env ''/data'')) False False
               before initial_results [] = (Inr res0, fs0)
         \<and> subdir_at demo_tree ns d
         \<and> ''/blink/M31'' = foldl os_path_join (path_str (Path (replace_env_vars demo_env ''/blink''))) ns
         \<and> (if has_lights (status_of demo_env fs0 ''/blink/M31'' False)
                \<and> is_complete (status_of demo_env fs0 ''/blink/M31'' False)
             then \<exists>ok.
                    move_directory demo_env ''/blink/M31''
                      (path_str \<lparr>path_root = path_root (Path (replace_env_vars demo_env ''/data'')),
                                 path_parts = path_parts (Path (replace_env_vars demo_env ''/data'')) @ ns\<rparr>)
                      False False fs0 = (ok, fs1)
                  \<and> res1 = (if ok then res0\<lparr>moved := moved res0 + 1\<rparr>
                            else res0\<lparr>errors := errors res0 + 1\<rparr>)
             else fs1 = fs0 \<and> moved res1 = moved res0 \<and> errors res1 = errors res0)
         \<and> process_dirs demo_env ''/blink'' (Path (replace_env_vars demo_env ''/data'')) False False
               (before @ [''/blink/M31'']) initial_results [] = (Inr res1, fs1)
         \<and> process_dirs demo_env ''/blink'' (Path (replace_env_vars demo_env ''/data'')) False False
               after res1 fs1 = (Inr res2, fs2)
         \<and> process_light_directories demo_env ''/blink'' ''/data'' False False []
             = (if \<not> False \<and> 0 < moved res2
                then (case delete_empty_directories demo_env
                             (path_str (Path (replace_env_vars demo_env ''/blink''))) False fs2 of
                        (Some e, fs3) \<Rightarrow> (Inl e, fs3)
                      | (None, fs3) \<Rightarrow> (Inr res2, fs3))
                else (Inr res2, fs2)))
   \<and> process_dirs demo_env ''/blink'' (Path (replace_env_vars demo_env ''/data'')) False False
         [''/blink/M31''] initial_results []
       = (Inr \<lparr>moved = 1, skipped_no_lights = 0, skipped_no_darks = 0, skipped_no_flats = 0,
               skipped_no_bias = 0, errors = 0\<rparr>,
          [(''mkdir'', ''/data''), (''/blink/M31'', ''/data/M31'')])
   \<and> process_light_directories demo_env ''/blink'' ''/data'' False False []
       = (Inr \<lparr>moved = 1, skipped_no_lights = 0, skipped_no_darks = 0, skipped_no_flats = 1,
               skipped_no_bias = 0, errors = 1\<rparr>,
          [(''mkdir'', ''/data''), (''/blink/M31'', ''/data/M31''), (''mkdir'', ''/data''),
           (''cleanup'', ''/blink'')])"
proof -
  have tree: "tree_at demo_env [] (path_str (Path (replace_env_vars demo_env ''/blink''))) = Some demo_tree"
    by code_simp
  have wf: "wf_tree demo_tree"
    by code_simp
  have examined: "''/blink/M31'' \<in> set (find_light_directories demo_env ''/blink'' False [])"
    by code_simp
  have first: "process_dirs demo_env ''/blink'' (Path (replace_env_vars demo_env ''/data'')) False False
         [''/blink/M31''] initial_results []
       = (Inr \<lparr>moved = 1, skipped_no_lights = 0, skipped_no_darks = 0, skipped_no_flats = 0,
               skipped_no_bias = 0, errors = 0\<rparr>,
          [(''mkdir'', ''/data''), (''/blink/M31'', ''/data/M31'')])"
    by code_simp
  have run: "process_light_directories demo_env ''/blink'' ''/data'' False False []
       = (Inr \<lparr>moved = 1, skipped_no_lights = 0, skipped_no_darks = 0, skipped_no_flats = 1,
               skipped_no_bias = 0, errors = 1\<rparr>,
          [(''mkdir'', ''/data''), (''/blink/M31'', ''/data/M31''), (''mkdir'', ''/data''),
           (''cleanup'', ''/blink'')])"
    by code_simp
  note inst = move_iff_lights_and_complete [OF tree wf examined,
      where dest_dir = "''/data''" and dry_run = False]
  from tree wf examined inst first run show ?thesis
    by (intro conjI)
qed

subsection \<open>A move that fails\<close>

text \<open>
  C3. Let a run without \<open>dry_run\<close> reach the complete directory \<open>image_dir\<close> with the
  counters \<open>res0\<close> and in the state \<open>fs0\<close>, and let \<open>mkdir\<close> or \<open>shutil.move\<close> raise while
  it is moved. Then \<open>move_directory\<close> returns \<open>False\<close>; the run has then one more under
  \<open>errors\<close> and nothing else changed in the counters; it goes on through all the
  directories \<open>after\<close> it from the state the failed move left, and \<open>errors\<close> stays above
  what it was. The run ends as every run does, with the counters, after the cleanup step
  when a directory was moved: the exception of the move is not what the run returns, and
  the only exception it can end with is one that \<open>delete_empty_directories\<close> raises.
\<close>

theorem failing_move_counted_run_continues:
  assumes examined: "find_light_directories env source_dir debug fs = before @ image_dir # after"
      and reached: "process_dirs env source_dir (Path (replace_env_vars env dest_dir)) debug False
                      before initial_results fs = (Inr res0, fs0)"
      and lights: "has_lights (status_of env fs0 image_dir debug)"
      and complete: "is_complete (status_of env fs0 image_dir debug)"
      and target: "get_target_from_path env image_dir source_dir = Inr rel"
      and dest: "dest = path_str (path_join (Path (replace_env_vars env dest_dir)) rel)"
      and raised: "fst (mkdir_parents env (path_parent (Path dest)) fs0) \<noteq> None
                 \<or> fst (shutil_move env (path_str (Path image_dir)) (path_str (Path dest))
                          (snd (mkdir_parents env (path_parent (Path dest)) fs0))) \<noteq> None"
  shows "fst (move_directory env image_dir dest debug False fs0) = False
       \<and> process_dirs env source_dir (Path (replace_env_vars env dest_dir)) debug False
             (before @ [image_dir]) initial_results fs
           = (Inr (res0\<lparr>errors := errors res0 + 1\<rparr>),
              snd (move_directory env image_dir dest debug False fs0))
       \<and> (\<exists>res2 fs2.
             process_dirs env source_dir (Path (replace_env_vars env dest_dir)) debug False after
               (res0\<lparr>errors := errors res0 + 1\<rparr>)
               (snd (move_directory env image_dir dest debug False fs0)) = (Inr res2, fs2)
           \<and> errors res0 < errors res2
           \<and> process_light_directories env source_dir dest_dir debug False fs
               = (if 0 < moved res2
                  then (case delete_empty_directories env
                               (path_str (Path (replace_env_vars env source_dir))) debug fs2 of
                          (Some e, fs3) \<Rightarrow> (Inl e, fs3)
                        | (None, fs3) \<Rightarrow> (Inr res2, fs3))
                  else (Inr res2, fs2)))"
proof -
  let ?D = "Path (replace_env_vars env dest_dir)"
  let ?res1 = "res0\<lparr>errors := errors res0 + 1\<rparr>"
  let ?fs1 = "snd (move_directory env image_dir dest debug False fs0)"
  have failed: "fst (move_directory env image_dir dest debug False fs0) = False"
    using raised by (rule move_directory_fails)
  have step: "process_image_dir env source_dir ?D debug False image_dir res0 fs0 = (Inr ?res1, ?fs1)"
    using lights complete failed by (simp add: process_image_dir_unfold[OF target] dest)
  have upto: "process_dirs env source_dir ?D debug False (before @ [image_dir]) initial_results fs
      = (Inr ?res1, ?fs1)"
    using process_dirs_snoc[OF reached] step by simp
  obtain res2 fs2 where
    rest: "process_dirs env source_dir ?D debug False after ?res1 ?fs1 = (Inr res2, fs2)"
    using process_dirs_Inr[of env source_dir ?D debug False after ?res1 ?fs1] by blast
  have counted: "errors res0 < errors res2"
    using process_dirs_grows[OF rest] by simp
  have "process_dirs env source_dir ?D debug False
          (find_light_directories env source_dir debug fs) initial_results fs = (Inr res2, fs2)"
    unfolding examined using process_dirs_split[OF upto] rest by simp
  then have "process_light_directories env source_dir dest_dir debug False fs
               = (if \<not> False \<and> 0 < moved res2
                  then (case delete_empty_directories env
                               (path_str (Path (replace_env_vars env source_dir))) debug fs2 of
                          (Some e, fs3) \<Rightarrow> (Inl e, fs3)
                        | (None, fs3) \<Rightarrow> (Inr res2, fs3))
                  else (Inr res2, fs2))"
    by (rule process_light_directories_after_loop)
  with failed upto rest counted show ?thesis
    by auto
qed

text \<open>
  In \<open>demo_env_first_fails\<close> the move of the first directory fails; the two directories
  after it are examined, the last of them is moved, and the cleanup runs.
\<close>

theorem failing_move_counted_run_continues_witness:
  "find_light_directories demo_env_first_fails ''/blink'' False []
     = [] @ ''/blink/M31'' # [''/blink/M31/flats_missing'', ''/blink/NGC7000'']
   \<and> process_dirs demo_env_first_fails ''/blink'' (Path (replace_env_vars demo_env_first_fails ''/data''))
         False False [] initial_results [] = (Inr initial_results, [])
   \<and> has_lights (status_of demo_env_first_fails [] ''/blink/M31'' False)
   \<and> is_complete (status_of demo_env_first_fails [] ''/blink/M31'' False)
   \<and> get_target_from_path demo_env_first_fails ''/blink/M31'' ''/blink'' = Inr ''M31''
   \<and> ''/data/M31'' = path_str (path_join (Path (replace_env_vars demo_env_first_fails ''/data'')) ''M31'')
   \<and> fst (shutil_move demo_env_first_fails (path_str (Path ''/blink/M31'')) (path_str (Path ''/data/M31''))
            (snd (mkdir_parents demo_env_first_fails (path_parent (Path ''/data/M31'')) []))) \<noteq> None
   \<and> fst (move_directory demo_env_first_fails ''/blink/M31'' ''/data/M31'' False False []) = False
   \<and> process_dirs demo_env_first_fails ''/blink'' (Path (replace_env_vars demo_env_first_fails ''/data''))
         False False ([] @ [''/blink/M31'']) initial_results []
       = (Inr (initial_results\<lparr>errors := errors initial_results + 1\<rparr>),
          snd (move_directory demo_env_first_fails ''/blink/M31'' ''/data/M31'' False False []))
   \<and> (\<exists>res2 fs2.
         process_dirs demo_env_first_fails ''/blink''
           (Path (replace_env_vars demo_env_first_fails ''/data'')) False False
           [''/blink/M31/flats_missing'', ''/blink/NGC7000'']
           (initial_results\<lparr>errors := errors initial_results + 1\<rparr>)
           (snd (move_directory demo_env_first_fails ''/blink/M31'' ''/data/M31'' False False []))
         = (Inr res2, fs2)
       \<and> errors initial_results < errors res2
       \<and> process_light_directories demo_env_first_fails ''/blink'' ''/data'' False False []
           = (if 0 < moved res2
              then (case delete_empty_directories demo_env_first_fails
                           (path_str (Path (replace_env_vars demo_env_first_fails ''/blink''))) False fs2 of
                      (Some e, fs3) \<Rightarrow> (Inl e, fs3)
                    | (None, fs3) \<Rightarrow> (Inr res2, fs3))
              else (Inr res2, fs2)))
   \<and> process_light_directories demo_env_first_fails ''/blink'' ''/data'' False False []
       = (Inr \<lparr>moved = 1, skipped_no_lights = 0, skipped_no_darks = 0, skipped_no_flats = 1,
               skipped_no_bias = 0, errors = 1\<rparr>,
          [(''mkdir'', ''/data''), (''mkdir'', ''/data''),
           (''/blink/NGC7000'', ''/data/NGC7000''), (''cleanup'', ''/blink'')])"
proof -
  have examined: "find_light_directories demo_env_first_fails ''/blink'' False []
     = [] @ ''/blink/M31'' # [''/blink/M31/flats_missing'', ''/blink/NGC7000'']"
    by code_simp
  have reached: "process_dirs demo_env_first_fails ''/blink''
         (Path (replace_env_vars demo_env_first_fails ''/data''))
         False False [] initial_results [] = (Inr initial_results, [])"
    by simp
  have lights: "has_lights (status_of demo_env_first_fails [] ''/blink/M31'' False)"
    by code_simp
  have complete: "is_complete (status_of demo_env_first_fails [] ''/blink/M31'' False)"
    by code_simp
  have target: "get_target_from_path demo_env_first_fails ''/blink/M31'' ''/blink'' = Inr ''M31''"
    by code_simp
  have dest: "''/data/M31''
      = path_str (path_join (Path (replace_env_vars demo_env_first_fails ''/data'')) ''M31'')"
    by code_simp
  have raised: "fst (shutil_move demo_env_first_fails (path_str (Path ''/blink/M31''))
            (path_str (Path ''/data/M31''))
            (snd (mkdir_parents demo_env_first_fails (path_parent (Path ''/data/M31'')) []))) \<noteq> None"
    by code_simp
  have run: "process_light_directories demo_env_first_fails ''/blink'' ''/data'' False False []
       = (Inr \<lparr>moved = 1, skipped_no_lights = 0, skipped_no_darks = 0, skipped_no_flats = 1,
               skipped_no_bias = 0, errors = 1\<rparr>,
          [(''mkdir'', ''/data''), (''mkdir'', ''/data''),
           (''/blink/NGC7000'', ''/data/NGC7000''), (''cleanup'', ''/blink'')])"
    by code_simp
  from raised have raised':
    "fst (mkdir_parents demo_env_first_fails (path_parent (Path ''/data/M31'')) []) \<noteq> None
     \<or> fst (shutil_move demo_env_first_fails (path_str (Path ''/blink/M31''))
            (path_str (Path ''/data/M31''))
            (snd (mkdir_parents demo_env_first_fails (path_parent (Path ''/data/M31'')) []))) \<noteq> None"
    by (rule disjI2)
  note inst = failing_move_counted_run_continues
      [OF examined reached lights complete target dest raised']
  from inst have c1:
    "fst (move_directory demo_env_first_fails ''/blink/M31'' ''/data/M31'' False False []) = False"
    by (rule conjunct1)
  from inst have c2:
    "process_dirs demo_env_first_fails ''/blink'' (Path (replace_env_vars demo_env_first_fails ''/data''))
         False False ([] @ [''/blink/M31'']) initial_results []
       = (Inr (initial_results\<lparr>errors := errors initial_results + 1\<rparr>),
          snd (move_directory demo_env_first_fails ''/blink/M31'' ''/data/M31'' False False []))"
    by (rule conjunct2 [THEN conjunct1])
  note c3 = inst [THEN conjunct2, THEN conjunct2]
  from examined reached lights complete target dest raised c1 c2 c3 run show ?thesis
    by (intro conjI)
qed

subsection \<open>The counters\<close>

lemma process_image_dir_counted:
  assumes "has_lights (status_of env fs image_dir debug)
           \<and> \<not> is_complete (status_of env fs image_dir debug)
         \<longrightarrow> names_missing_type (reason (status_of env fs image_dir debug))"
  shows "\<exists>ok. fst (process_image_dir env source_dir dest_path debug dry_run image_dir res fs)
           = Inr (increment (category (status_of env fs image_dir debug) ok) res)"
proof -
  obtain rel where target: "get_target_from_path env image_dir source_dir = Inr rel"
    using get_target_from_path_Inr[of env image_dir source_dir] by blast
  let ?ok = "fst (move_directory env image_dir (path_str (path_join dest_path rel)) debug dry_run fs)"
  have "fst (process_image_dir env source_dir dest_path debug dry_run image_dir res fs)
      = Inr (increment (category (status_of env fs image_dir debug) ?ok) res)"
    using assms by (simp add: process_image_dir_unfold[OF target] category_def)
  then show ?thesis ..
qed

lemma process_dirs_counted:
  assumes "\<forall>fs d. has_lights (status_of env fs d debug) \<and> \<not> is_complete (status_of env fs d debug)
             \<longrightarrow> names_missing_type (reason (status_of env fs d debug))"
  shows "\<exists>res1. fst (process_dirs env source_dir dest_path debug dry_run image_dirs res fs) = Inr res1
           \<and> counters_total res1 = counters_total res + length image_dirs"
proof (induction image_dirs arbitrary: res fs)
  case Nil
  then show ?case by simp
next
  case (Cons d ds)
  obtain res1 fs1 where
    step: "process_image_dir env source_dir dest_path debug dry_run d res fs = (Inr res1, fs1)"
    using process_image_dir_Inr[of env source_dir dest_path debug dry_run d res fs] by blast
  obtain ok where "fst (process_image_dir env source_dir dest_path debug dry_run d res fs)
      = Inr (increment (category (status_of env fs d debug) ok) res)"
    using process_image_dir_counted[of env fs d debug source_dir dest_path dry_run res] assms
    by blast
  with step have "counters_total res1 = counters_total res + 1"
    by (simp add: counters_total_increment)
  with Cons[of res1 fs1] step show ?case by simp
qed

text \<open>
  The verdicts of the evaluator mention the kind of frame that is missing.
\<close>

lemma check_calibration_status_names_type:
  assumes "has_lights (check_calibration_status tol frames)"
      and "\<not> is_complete (check_calibration_status tol frames)"
  shows "names_missing_type (reason (check_calibration_status tol frames))"
proof -
  have "str_contains ''dark'' (lower ''No matching dark frames'')"
    "str_contains ''flat'' (lower ''No matching flat frames'')"
    "str_contains ''bias'' (lower ''No matching bias frames'')"
    by code_simp+
  then have "names_missing_type ''No matching dark frames''"
    "names_missing_type ''No matching flat frames''"
    "names_missing_type ''No matching bias frames''"
    by (simp_all only: names_missing_type_def str_contains_lower simp_thms)
  with assms show ?thesis
    by (auto simp: check_calibration_status_def Let_def split: if_splits)
qed

lemma process_image_dir_at_most_one:
  assumes "process_image_dir env source_dir dest_path debug dry_run d res fs = (Inr res1, fs1)"
  shows "res1 = res \<or> (\<exists>c. res1 = increment c res)"
    and "\<not> has_lights (status_of env fs d debug) \<or> is_complete (status_of env fs d debug)
           \<or> names_missing_type (reason (status_of env fs d debug))
         \<Longrightarrow> res1 = increment (category (status_of env fs d debug)
                                 (moves_with_success env source_dir dest_path debug dry_run fs d)) res"
proof -
  obtain rel where target: "get_target_from_path env d source_dir = Inr rel"
    using get_target_from_path_Inr[of env d source_dir] by blast
  from assms show "res1 = res \<or> (\<exists>c. res1 = increment c res)"
    by (auto simp: process_image_dir_unfold[OF target] simp del: increment.simps
        split: if_splits)
  assume "\<not> has_lights (status_of env fs d debug) \<or> is_complete (status_of env fs d debug)
           \<or> names_missing_type (reason (status_of env fs d debug))"
  with assms show "res1 = increment (category (status_of env fs d debug)
                                 (moves_with_success env source_dir dest_path debug dry_run fs d)) res"
    by (auto simp: process_image_dir_unfold[OF target] moves_with_success_def target category_def
        split: if_splits)
qed

lemma returned_counters_of_loop:
  assumes loop: "process_dirs env source_dir (Path (replace_env_vars env dest_dir)) debug dry_run
             (find_light_directories env source_dir debug fs) initial_results fs = (Inr res1, fs1)"
      and run: "fst (process_light_directories env source_dir dest_dir debug dry_run fs) = Inr res"
  shows "res = res1"
  using run unfolding process_light_directories_after_loop[OF loop]
  by (auto split: if_splits prod.splits option.splits)

text \<open>
  C4. The claim is that every examined directory adds one to exactly one counter, so that
  the six counters sum to the number of directories examined. A directory with lights that
  is incomplete for a reason mentioning none of dark, flat and bias is counted nowhere:
  the chain of tests on the reason has no last branch. In \<open>demo_env_unnamed_reason\<close> three
  directories are examined and all six counters stay zero.
\<close>

theorem counters_per_directory_counterexample:
  "find_light_directories demo_env_unnamed_reason ''/blink'' False []
     = [''/blink/M31'', ''/blink/M31/flats_missing'', ''/blink/NGC7000'']
   \<and> process_light_directories demo_env_unnamed_reason ''/blink'' ''/data'' False False []
     = (Inr \<lparr>moved = 0, skipped_no_lights = 0, skipped_no_darks = 0, skipped_no_flats = 0,
             skipped_no_bias = 0, errors = 0\<rparr>, [])
   \<and> counters_total \<lparr>moved = 0, skipped_no_lights = 0, skipped_no_darks = 0, skipped_no_flats = 0,
             skipped_no_bias = 0, errors = 0\<rparr>
     \<noteq> length [''/blink/M31'', ''/blink/M31/flats_missing'', ''/blink/NGC7000'']"
  by code_simp

text \<open>
  C4, as amended. Every directory that a run examines changes at most one counter, by
  one. A directory without lights, a complete one, and an incomplete one whose reason
  mentions dark, flat or bias, ignoring case, adds one to exactly the counter of its
  category: no lights; else, when incomplete, the first of dark, flat and bias that the
  reason mentions; else moved or errors by the outcome of the move. So the counters that
  a run returns sum to at most the number of directories examined, and to that number
  when every incomplete verdict with lights has a reason that mentions one of the three.
\<close>

theorem counters_per_directory:
  "(\<forall>image_dir \<in> set (find_light_directories env source_dir debug fs).
      \<exists>before after res0 fs0 res1 fs1.
         find_light_directories env source_dir debug fs = before @ image_dir # after
       \<and> process_dirs env source_dir (Path (replace_env_vars env dest_dir)) debug dry_run
             before initial_results fs = (Inr res0, fs0)
       \<and> process_dirs env source_dir (Path (replace_env_vars env dest_dir)) debug dry_run
             (before @ [image_dir]) initial_results fs = (Inr res1, fs1)
       \<and> (res1 = res0 \<or> (\<exists>c. res1 = increment c res0))
       \<and> (\<not> has_lights (status_of env fs0 image_dir debug)
            \<or> is_complete (status_of env fs0 image_dir debug)
            \<or> names_missing_type (reason (status_of env fs0 image_dir debug))
          \<longrightarrow> res1 = increment
                        (category (status_of env fs0 image_dir debug)
                           (moves_with_success env source_dir (Path (replace_env_vars env dest_dir))
                              debug dry_run fs0 image_dir))
                        res0))
   \<and> (\<forall>res. fst (process_light_directories env source_dir dest_dir debug dry_run fs) = Inr res
          \<longrightarrow> counters_total res \<le> length (find_light_directories env source_dir debug fs))
   \<and> ((\<forall>fs' d. has_lights (status_of env fs' d debug) \<and> \<not> is_complete (status_of env fs' d debug)
                \<longrightarrow> names_missing_type (reason (status_of env fs' d debug)))
        \<longrightarrow> (\<forall>res. fst (process_light_directories env source_dir dest_dir debug dry_run fs) = Inr res
               \<longrightarrow> counters_total res = length (find_light_directories env source_dir debug fs)))"
proof (intro conjI ballI allI impI)
  let ?D = "Path (replace_env_vars env dest_dir)"
  let ?dirs = "find_light_directories env source_dir debug fs"
  obtain resL fsL where
    loop: "process_dirs env source_dir ?D debug dry_run ?dirs initial_results fs = (Inr resL, fsL)"
    using process_dirs_Inr[of env source_dir ?D debug dry_run ?dirs initial_results fs] by blast
  have zero: "counters_total initial_results = 0"
    by (simp add: counters_total_def initial_results_def)
  {
    fix image_dir
    assume examined: "image_dir \<in> set ?dirs"
    from run_reaches_directory[OF examined, of env source_dir ?D debug dry_run initial_results fs]
    obtain before after res0 fs0 where
      dirs: "?dirs = before @ image_dir # after"
      and reached: "process_dirs env source_dir ?D debug dry_run before initial_results fs = (Inr res0, fs0)"
      by blast
    obtain res1 fs1 where
      step: "process_image_dir env source_dir ?D debug dry_run image_dir res0 fs0 = (Inr res1, fs1)"
      using process_image_dir_Inr[of env source_dir ?D debug dry_run image_dir res0 fs0] by blast
    have upto: "process_dirs env source_dir ?D debug dry_run (before @ [image_dir]) initial_results fs
        = (Inr res1, fs1)"
      using process_dirs_snoc[OF reached] step by simp
    from dirs reached upto process_image_dir_at_most_one[OF step]
    show "\<exists>before after res0 fs0 res1 fs1.
         ?dirs = before @ image_dir # after
       \<and> process_dirs env source_dir ?D debug dry_run before initial_results fs = (Inr res0, fs0)
       \<and> process_dirs env source_dir ?D debug dry_run (before @ [image_dir]) initial_results fs
           = (Inr res1, fs1)
       \<and> (res1 = res0 \<or> (\<exists>c. res1 = increment c res0))
       \<and> (\<not> has_lights (status_of env fs0 image_dir debug)
            \<or> is_complete (status_of env fs0 image_dir debug)
            \<or> names_missing_type (reason (status_of env fs0 image_dir debug))
          \<longrightarrow> res1 = increment
                        (category (status_of env fs0 image_dir debug)
                           (moves_with_success env source_dir ?D debug dry_run fs0 image_dir))
                        res0)"
      by blast
  }
  {
    fix res
    assume run: "fst (process_light_directories env source_dir dest_dir debug dry_run fs) = Inr res"
    have "res = resL"
      using loop run by (rule returned_counters_of_loop)
    with process_dirs_grows[OF loop] zero
    show "counters_total res \<le> length ?dirs" by simp
  }
  {
    fix res
    assume contract: "\<forall>fs' d. has_lights (status_of env fs' d debug)
                \<and> \<not> is_complete (status_of env fs' d debug)
                \<longrightarrow> names_missing_type (reason (status_of env fs' d debug))"
      and run: "fst (process_light_directories env source_dir dest_dir debug dry_run fs) = Inr res"
    have "res = resL"
      using loop run by (rule returned_counters_of_loop)
    moreover from process_dirs_counted[OF contract, of source_dir ?D dry_run ?dirs initial_results fs]
      loop
    have "counters_total resL = counters_total initial_results + length ?dirs" by simp
    ultimately show "counters_total res = length ?dirs"
      using zero by simp
  }
qed

text \<open>
  The run over \<open>demo_tree\<close> examines three directories: one is moved, one lacks flats, and
  the move of one fails.
\<close>

theorem counters_per_directory_witness:
  "names_missing_type ''No matching Flats''
   \<and> ''/blink/M31/flats_missing'' \<in> set (find_light_directories demo_env ''/blink'' False [])
   \<and> (\<exists>before after res0 fs0 res1 fs1.
         find_light_directories demo_env ''/blink'' False []
           = before @ ''/blink/M31/flats_missing'' # after
       \<and> process_dirs demo_env ''/blink'' (Path (replace_env_vars demo_env ''/data'')) False False
             before initial_results [] = (Inr res0, fs0)
       \<and> process_dirs demo_env ''/blink'' (Path (replace_env_vars demo_env ''/data'')) False False
             (before @ [''/blink/M31/flats_missing'']) initial_results [] = (Inr res1, fs1)
       \<and> (res1 = res0 \<or> (\<exists>c. res1 = increment c res0))
       \<and> (\<not> has_lights (status_of demo_env fs0 ''/blink/M31/flats_missing'' False)
            \<or> is_complete (status_of demo_env fs0 ''/blink/M31/flats_missing'' False)
            \<or> names_missing_type (reason (status_of demo_env fs0 ''/blink/M31/flats_missing'' False))
          \<longrightarrow> res1 = increment
                        (category (status_of demo_env fs0 ''/blink/M31/flats_missing'' False)
                           (moves_with_success demo_env ''/blink''
                              (Path (replace_env_vars demo_env ''/data''))
                              False False fs0 ''/blink/M31/flats_missing''))
                        res0))
   \<and> fst (process_light_directories demo_env ''/blink'' ''/data'' False False [])
       = Inr \<lparr>moved = 1, skipped_no_lights = 0, skipped_no_darks = 0, skipped_no_flats = 1,
              skipped_no_bias = 0, errors = 1\<rparr>
   \<and> counters_total \<lparr>moved = 1, skipped_no_lights = 0, skipped_no_darks = 0, skipped_no_flats = 1,
              skipped_no_bias = 0, errors = 1\<rparr>
       = length (find_light_directories demo_env ''/blink'' False [])
   \<and> length (find_light_directories demo_env ''/blink'' False []) = 3"
proof -
  have "str_contains ''flat'' (lower ''No matching Flats'')"
    by code_simp
  then have names: "names_missing_type ''No matching Flats''"
    by (simp only: names_missing_type_def str_contains_lower simp_thms)
  have contract:
    "\<forall>fs' d. has_lights (status_of demo_env fs' d False) \<and> \<not> is_complete (status_of demo_env fs' d False)
       \<longrightarrow> names_missing_type (reason (status_of demo_env fs' d False))"
    using names by (simp add: demo_env_def demo_status_def)
  have examined:
    "''/blink/M31/flats_missing'' \<in> set (find_light_directories demo_env ''/blink'' False [])"
    by code_simp
  have run: "fst (process_light_directories demo_env ''/blink'' ''/data'' False False [])
       = Inr \<lparr>moved = 1, skipped_no_lights = 0, skipped_no_darks = 0, skipped_no_flats = 1,
              skipped_no_bias = 0, errors = 1\<rparr>"
    by code_simp
  have found: "length (find_light_directories demo_env ''/blink'' False []) = 3"
    by code_simp
  note inst = counters_per_directory
      [of demo_env "''/blink''" False "[]" "''/data''" False]
  note here = inst [THEN conjunct1, THEN bspec, OF examined]
  from inst contract run
  have total: "counters_total \<lparr>moved = 1, skipped_no_lights = 0, skipped_no_darks = 0,
              skipped_no_flats = 1, skipped_no_bias = 0, errors = 1\<rparr>
       = length (find_light_directories demo_env ''/blink'' False [])"
    by blast
  from names examined here run total found show ?thesis
    by (intro conjI)
qed

subsection \<open>What the decision depends on\<close>

lemma process_image_dir_same_decision:
  assumes "has_lights (c1 fs image_dir debug) = has_lights (c2 fs image_dir debug)"
      and "is_complete (c1 fs image_dir debug) = is_complete (c2 fs image_dir debug)"
      and "reason (c1 fs image_dir debug) = reason (c2 fs image_dir debug)"
  shows "process_image_dir (env\<lparr>status_of := c1\<rparr>) source_dir dest_path debug dry_run image_dir res fs
       = process_image_dir (env\<lparr>status_of := c2\<rparr>) source_dir dest_path debug dry_run image_dir res fs"
proof -
  obtain rel where target: "get_target_from_path env image_dir source_dir = Inr rel"
    using get_target_from_path_Inr[of env image_dir source_dir] by blast
  have t1: "get_target_from_path (env\<lparr>status_of := c1\<rparr>) image_dir source_dir = Inr rel"
    and t2: "get_target_from_path (env\<lparr>status_of := c2\<rparr>) image_dir source_dir = Inr rel"
    using target by (simp_all add: get_target_from_path_def)
  have "move_directory (env\<lparr>status_of := c1\<rparr>) image_dir dest debug dry_run fs
      = move_directory (env\<lparr>status_of := c2\<rparr>) image_dir dest debug dry_run fs" for dest
    by (auto simp: move_directory_def Let_def split: prod.splits option.splits)
  with assms show ?thesis
    by (simp add: process_image_dir_unfold[OF t1] process_image_dir_unfold[OF t2] category_def)
qed

lemma process_dirs_same_decision:
  assumes "\<forall>fs d. has_lights (c1 fs d debug) = has_lights (c2 fs d debug)
             \<and> is_complete (c1 fs d debug) = is_complete (c2 fs d debug)
             \<and> reason (c1 fs d debug) = reason (c2 fs d debug)"
  shows "process_dirs (env\<lparr>status_of := c1\<rparr>) source_dir dest_path debug dry_run image_dirs res fs
       = process_dirs (env\<lparr>status_of := c2\<rparr>) source_dir dest_path debug dry_run image_dirs res fs"
proof (induction image_dirs arbitrary: res fs)
  case Nil
  then show ?case by simp
next
  case (Cons d ds)
  have "process_image_dir (env\<lparr>status_of := c1\<rparr>) source_dir dest_path debug dry_run d res fs
      = process_image_dir (env\<lparr>status_of := c2\<rparr>) source_dir dest_path debug dry_run d res fs"
    using assms by (intro process_image_dir_same_decision) simp_all
  with Cons show ?case
    by (simp split: prod.splits sum.splits)
qed

text \<open>
  C7. Two sources of verdicts that agree on \<open>has_lights\<close>, \<open>is_complete\<close> and \<open>reason\<close> for
  every directory, whatever their counts and their \<open>needs_bias\<close>, give the same run: the
  loop and the whole of \<open>process_light_directories\<close> return the same counters and leave
  the same state.
\<close>

theorem counts_and_flags_do_not_decide:
  assumes agree:
    "\<forall>fs d. has_lights (c1 fs d debug) = has_lights (c2 fs d debug)
       \<and> is_complete (c1 fs d debug) = is_complete (c2 fs d debug)
       \<and> reason (c1 fs d debug) = reason (c2 fs d debug)"
  shows "process_dirs (env\<lparr>status_of := c1\<rparr>) source_dir dest_path debug dry_run image_dirs res fs
           = process_dirs (env\<lparr>status_of := c2\<rparr>) source_dir dest_path debug dry_run image_dirs res fs
       \<and> process_light_directories (env\<lparr>status_of := c1\<rparr>) source_dir dest_dir debug dry_run fs
           = process_light_directories (env\<lparr>status_of := c2\<rparr>) source_dir dest_dir debug dry_run fs"
proof -
  have "find_light_directories (env\<lparr>status_of := c1\<rparr>) source_dir debug fs
      = find_light_directories (env\<lparr>status_of := c2\<rparr>) source_dir debug fs"
    by (simp add: find_light_directories_def)
  moreover have "process_dirs (env\<lparr>status_of := c1\<rparr>) source_dir p debug dry_run ds r fs
      = process_dirs (env\<lparr>status_of := c2\<rparr>) source_dir p debug dry_run ds r fs" for p ds r
    using agree by (rule process_dirs_same_decision)
  ultimately show ?thesis
    by (auto simp: process_light_directories_def Let_def split: prod.splits sum.splits)
qed

text \<open>
  The verdicts of \<open>demo_other_counts\<close> differ from those of \<open>demo_env\<close> in all four counts
  and in \<open>needs_bias\<close>.
\<close>

theorem counts_and_flags_do_not_decide_witness:
  "(\<forall>fs d. has_lights (status_of demo_env fs d False) = has_lights (demo_other_counts fs d False)
       \<and> is_complete (status_of demo_env fs d False) = is_complete (demo_other_counts fs d False)
       \<and> reason (status_of demo_env fs d False) = reason (demo_other_counts fs d False))
   \<and> light_count (status_of demo_env [] ''/blink/M31'' False)
       \<noteq> light_count (demo_other_counts [] ''/blink/M31'' False)
   \<and> process_light_directories (demo_env\<lparr>status_of := status_of demo_env\<rparr>) ''/blink'' ''/data'' False False []
       = process_light_directories (demo_env\<lparr>status_of := demo_other_counts\<rparr>) ''/blink'' ''/data'' False False []"
proof -
  have agree:
    "\<forall>fs d. has_lights (status_of demo_env fs d False) = has_lights (demo_other_counts fs d False)
       \<and> is_complete (status_of demo_env fs d False) = is_complete (demo_other_counts fs d False)
       \<and> reason (status_of demo_env fs d False) = reason (demo_other_counts fs d False)"
    by (simp add: demo_other_counts_def)
  have differ: "light_count (status_of demo_env [] ''/blink/M31'' False)
       \<noteq> light_count (demo_other_counts [] ''/blink/M31'' False)"
    by code_simp
  from counts_and_flags_do_not_decide
         [of "status_of demo_env" False demo_other_counts demo_env, OF agree]
  have "process_light_directories (demo_env\<lparr>status_of := status_of demo_env\<rparr>) ''/blink'' ''/data'' False False []
       = process_light_directories (demo_env\<lparr>status_of := demo_other_counts\<rparr>) ''/blink'' ''/data'' False False []"
    by blast
  with agree differ show ?thesis
    by (intro conjI)
qed

subsection \<open>Dry runs and the cleanup\<close>

lemma process_dirs_dry_run:
  "snd (process_dirs env source_dir dest_path debug True image_dirs res fs) = fs"
proof (induction image_dirs arbitrary: res)
  case Nil
  then show ?case by simp
next
  case (Cons d ds)
  obtain rel where target: "get_target_from_path env d source_dir = Inr rel"
    using get_target_from_path_Inr[of env d source_dir] by blast
  have "\<exists>res1. process_image_dir env source_dir dest_path debug True d res fs = (Inr res1, fs)"
    by (simp add: process_image_dir_unfold[OF target] move_directory_dry_run)
  then obtain res1 where
    "process_image_dir env source_dir dest_path debug True d res fs = (Inr res1, fs)" ..
  with Cons[of res1] show ?case by simp
qed

text \<open>
  C8. With \<open>dry_run\<close> set, \<open>move_directory\<close> returns \<open>True\<close> and leaves the state as it
  was, for every source and destination; and \<open>process_light_directories\<close> returns its
  counters and leaves the state as it was, so that it neither created a directory, nor
  moved one, nor ran the cleanup.
\<close>

theorem dry_run_changes_nothing:
  "move_directory env source dest debug True fs = (True, fs)
   \<and> (\<exists>res. process_light_directories env source_dir dest_dir debug True fs = (Inr res, fs))"
proof -
  let ?loop = "process_dirs env source_dir (Path (replace_env_vars env dest_dir)) debug True
                 (find_light_directories env source_dir debug fs) initial_results fs"
  obtain res1 fs1 where loop: "?loop = (Inr res1, fs1)"
    using process_dirs_Inr[of env source_dir "Path (replace_env_vars env dest_dir)" debug True
        "find_light_directories env source_dir debug fs" initial_results fs]
    by blast
  with process_dirs_dry_run[of env source_dir "Path (replace_env_vars env dest_dir)" debug
      "find_light_directories env source_dir debug fs" initial_results fs]
  have "fs1 = fs" by simp
  with loop have "\<exists>res. process_light_directories env source_dir dest_dir debug True fs = (Inr res, fs)"
    by (simp add: process_light_directories_def Let_def)
  then show ?thesis
    by (simp add: move_directory_dry_run)
qed

text \<open>
  C9. A run calls \<open>delete_empty_directories\<close> on the source directory, in the state the
  loop left, when \<open>dry_run\<close> is not set and some directory was moved with success in the
  run, and only then: that is, when the run reached some directory whose verdict had lights
  and was complete and for which \<open>move_directory\<close> returned \<open>True\<close>. Otherwise the run
  returns the counters and the state of the loop as they are. The counter \<open>moved\<close> is
  positive after the loop exactly when there was such a directory.
\<close>

theorem cleanup_iff_moved_and_not_dry_run:
  "\<exists>res1 fs1.
     process_dirs env source_dir (Path (replace_env_vars env dest_dir)) debug dry_run
       (find_light_directories env source_dir debug fs) initial_results fs = (Inr res1, fs1)
   \<and> (0 < moved res1 \<longleftrightarrow>
        (\<exists>before image_dir after res0 fs0.
           find_light_directories env source_dir debug fs = before @ image_dir # after
         \<and> process_dirs env source_dir (Path (replace_env_vars env dest_dir)) debug dry_run
               before initial_results fs = (Inr res0, fs0)
         \<and> moves_with_success env source_dir (Path (replace_env_vars env dest_dir))
               debug dry_run fs0 image_dir))
   \<and> process_light_directories env source_dir dest_dir debug dry_run fs
       = (if \<not> dry_run
             \<and> (\<exists>before image_dir after res0 fs0.
                   find_light_directories env source_dir debug fs = before @ image_dir # after
                 \<and> process_dirs env source_dir (Path (replace_env_vars env dest_dir)) debug dry_run
                       before initial_results fs = (Inr res0, fs0)
                 \<and> moves_with_success env source_dir (Path (replace_env_vars env dest_dir))
                       debug dry_run fs0 image_dir)
          then (case delete_empty_directories env
                       (path_str (Path (replace_env_vars env source_dir))) debug fs1 of
                  (Some e, fs2) \<Rightarrow> (Inl e, fs2)
                | (None, fs2) \<Rightarrow> (Inr res1, fs2))
          else (Inr res1, fs1))"
proof -
  let ?D = "Path (replace_env_vars env dest_dir)"
  let ?dirs = "find_light_directories env source_dir debug fs"
  obtain res1 fs1 where
    loop: "process_dirs env source_dir ?D debug dry_run ?dirs initial_results fs = (Inr res1, fs1)"
    using process_dirs_Inr[of env source_dir ?D debug dry_run ?dirs initial_results fs] by blast
  have "moved initial_results = 0"
    by (simp add: initial_results_def)
  with moved_grows_iff[OF loop]
  have moved: "0 < moved res1 \<longleftrightarrow>
        (\<exists>before image_dir after res0 fs0.
           ?dirs = before @ image_dir # after
         \<and> process_dirs env source_dir ?D debug dry_run before initial_results fs = (Inr res0, fs0)
         \<and> moves_with_success env source_dir ?D debug dry_run fs0 image_dir)"
    by simp
  have run: "process_light_directories env source_dir dest_dir debug dry_run fs
       = (if \<not> dry_run \<and> 0 < moved res1
          then (case delete_empty_directories env
                       (path_str (Path (replace_env_vars env source_dir))) debug fs1 of
                  (Some e, fs2) \<Rightarrow> (Inl e, fs2)
                | (None, fs2) \<Rightarrow> (Inr res1, fs2))
          else (Inr res1, fs1))"
    using loop by (rule process_light_directories_after_loop)
  show ?thesis
    apply (rule exI[of _ res1], rule exI[of _ fs1])
    apply (intro conjI)
      apply (rule loop)
     apply (rule moved)
    apply (subst run)
    apply (simp only: moved)
    done
qed

text \<open>
  In \<open>demo_env\<close> one directory is moved and the cleanup runs; in \<open>demo_env_no_move\<close> every
  move fails, no directory is moved with success, and the run ends in the state of the
  loop.
\<close>

theorem cleanup_iff_moved_and_not_dry_run_witness:
  "(\<exists>res1 fs1.
       process_dirs demo_env ''/blink'' (Path (replace_env_vars demo_env ''/data'')) False False
         (find_light_directories demo_env ''/blink'' False []) initial_results [] = (Inr res1, fs1)
     \<and> (0 < moved res1 \<longleftrightarrow>
          (\<exists>before image_dir after res0 fs0.
             find_light_directories demo_env ''/blink'' False [] = before @ image_dir # after
           \<and> process_dirs demo_env ''/blink'' (Path (replace_env_vars demo_env ''/data'')) False False
                 before initial_results [] = (Inr res0, fs0)
           \<and> moves_with_success demo_env ''/blink'' (Path (replace_env_vars demo_env ''/data''))
                 False False fs0 image_dir))
     \<and> process_light_directories demo_env ''/blink'' ''/data'' False False []
         = (if \<not> False
               \<and> (\<exists>before image_dir after res0 fs0.
                     find_light_directories demo_env ''/blink'' False [] = before @ image_dir # after
                   \<and> process_dirs demo_env ''/blink'' (Path (replace_env_vars demo_env ''/data'')) False False
                         before initial_results [] = (Inr res0, fs0)
                   \<and> moves_with_success demo_env ''/blink'' (Path (replace_env_vars demo_env ''/data''))
                         False False fs0 image_dir)
            then (case delete_empty_directories demo_env
                         (path_str (Path (replace_env_vars demo_env ''/blink''))) False fs1 of
                    (Some e, fs2) \<Rightarrow> (Inl e, fs2)
                  | (None, fs2) \<Rightarrow> (Inr res1, fs2))
            else (Inr res1, fs1)))
   \<and> process_light_directories demo_env ''/blink'' ''/data'' False False []
       = (Inr \<lparr>moved = 1, skipped_no_lights = 0, skipped_no_darks = 0, skipped_no_flats = 1,
               skipped_no_bias = 0, errors = 1\<rparr>,
          [(''mkdir'', ''/data''), (''/blink/M31'', ''/data/M31''), (''mkdir'', ''/data''),
           (''cleanup'', ''/blink'')])
   \<and> \<not> (\<exists>before image_dir after res0 fs0.
             find_light_directories demo_env_no_move ''/blink'' False [] = before @ image_dir # after
           \<and> process_dirs demo_env_no_move ''/blink'' (Path (replace_env_vars demo_env_no_move ''/data''))
                 False False before initial_results [] = (Inr res0, fs0)
           \<and> moves_with_success demo_env_no_move ''/blink''
                 (Path (replace_env_vars demo_env_no_move ''/data'')) False False fs0 image_dir)
   \<and> process_light_directories demo_env_no_move ''/blink'' ''/data'' False False []
       = (Inr \<lparr>moved = 0, skipped_no_lights = 0, skipped_no_darks = 0, skipped_no_flats = 1,
               skipped_no_bias = 0, errors = 2\<rparr>,
          [(''mkdir'', ''/data''), (''mkdir'', ''/data'')])"
proof -
  have run: "process_light_directories demo_env ''/blink'' ''/data'' False False []
       = (Inr \<lparr>moved = 1, skipped_no_lights = 0, skipped_no_darks = 0, skipped_no_flats = 1,
               skipped_no_bias = 0, errors = 1\<rparr>,
          [(''mkdir'', ''/data''), (''/blink/M31'', ''/data/M31''), (''mkdir'', ''/data''),
           (''cleanup'', ''/blink'')])"
    by code_simp
  have loop: "process_dirs demo_env_no_move ''/blink''
         (Path (replace_env_vars demo_env_no_move ''/data'')) False False
         (find_light_directories demo_env_no_move ''/blink'' False []) initial_results []
       = (Inr \<lparr>moved = 0, skipped_no_lights = 0, skipped_no_darks = 0, skipped_no_flats = 1,
               skipped_no_bias = 0, errors = 2\<rparr>,
          [(''mkdir'', ''/data''), (''mkdir'', ''/data'')])"
    by code_simp
  note with_move = cleanup_iff_moved_and_not_dry_run
      [of demo_env "''/blink''" "''/data''" False False "[]"]
  note without = cleanup_iff_moved_and_not_dry_run
      [of demo_env_no_move "''/blink''" "''/data''" False False "[]"]
  from without loop have none: "\<not> (\<exists>before image_dir after res0 fs0.
             find_light_directories demo_env_no_move ''/blink'' False [] = before @ image_dir # after
           \<and> process_dirs demo_env_no_move ''/blink'' (Path (replace_env_vars demo_env_no_move ''/data''))
                 False False before initial_results [] = (Inr res0, fs0)
           \<and> moves_with_success demo_env_no_move ''/blink''
                 (Path (replace_env_vars demo_env_no_move ''/data'')) False False fs0 image_dir)"
    by auto
  from without loop none
  have run0: "process_light_directories demo_env_no_move ''/blink'' ''/data'' False False []
       = (Inr \<lparr>moved = 0, skipped_no_lights = 0, skipped_no_darks = 0, skipped_no_flats = 1,
               skipped_no_bias = 0, errors = 2\<rparr>,
          [(''mkdir'', ''/data''), (''mkdir'', ''/data'')])"
    by auto
  from with_move run none run0 show ?thesis
    by (intro conjI)
qed

end
